theory Spec2Isabelle
  imports Main "HOL-Library.AList"
begin

section \<open>Python values, failures and warnings\<close>

text \<open>
  A Python object as the label module sees it: its identity, whether \<open>callable(obj)\<close>
  holds, whether it can be hashed, and its \<open>__name__\<close> attribute when it has one
  (\<open>hasattr(obj, '__name__')\<close>). Functions hash and compare by identity, so a hashable
  object is a dictionary key as it is; an object whose class defines \<open>__eq__\<close> without
  \<open>__hash__\<close> is not hashable, and using it as a key raises \<open>TypeError\<close>.
\<close>

record pyobj =
  obj_id :: nat
  callable :: bool
  hashable :: bool
  obj_name :: "string option"

text \<open>The argument an exception carries: a message, the offending key or a number.\<close>

datatype pyarg = Str string | Obj pyobj | Num int

datatype error =
    KeyError pyarg
  | ValueError pyarg
  | TypeError pyarg
  | AttributeError pyarg
  | AssertionError
  | Raised string

text \<open>
  Modelled from the spec: \<open>RegistryWarning\<close> is imported from \<open>devtools/label/_exceptions.py\<close>,
  which is not among the sources; the spec only says that per-label notices and the
  "already registered" notice go to the warning channel. It is a warning category of its
  own here; \<open>warnings.warn(msg)\<close> without a category uses \<open>UserWarning\<close>.
\<close>

datatype category = UserWarning | RegistryWarning

type_synonym warning = "category \<times> string"

text \<open>The concrete registry types: \<open>_Registry\<close> itself and the classes derived from it.\<close>

datatype pytype = Registry | Subclass nat

text \<open>
  The process state: the class attribute \<open>_Registry.__cache\<close> (an insertion-ordered
  dictionary from the class to its instance), the \<open>__data\<close> slot of every instance, and
  the warnings emitted so far.
\<close>

record state =
  cache :: "(pytype \<times> nat) list"
  store :: "nat \<Rightarrow> (pyobj \<rightharpoonup> int)"
  emitted :: "warning list"

definition warn :: "category \<Rightarrow> string \<Rightarrow> state \<Rightarrow> state" where
  "warn cat msg st = st\<lparr>emitted := emitted st @ [(cat, msg)]\<rparr>"

section \<open>\<open>_LabelEnum\<close>\<close>

datatype LabelEnum = deprecated | pure | idempotent

fun label_value :: "LabelEnum \<Rightarrow> nat" where
  "label_value deprecated = 0"
| "label_value pure = 1"
| "label_value idempotent = 2"

fun label_name :: "LabelEnum \<Rightarrow> string" where
  "label_name deprecated = ''deprecated''"
| "label_name pure = ''pure''"
| "label_name idempotent = ''idempotent''"

text \<open>\<open>_LabelEnum[name]\<close>: the member of that name, or \<open>KeyError(name)\<close>.\<close>

definition LabelEnum_getitem :: "string \<Rightarrow> error + LabelEnum" where
  "LabelEnum_getitem nm =
     (if nm = ''deprecated'' then Inr deprecated
      else if nm = ''pure'' then Inr pure
      else if nm = ''idempotent'' then Inr idempotent
      else Inl (KeyError (Str nm)))"

text \<open>\<open>_LabelEnum(c)\<close>: the member of that value, or \<open>ValueError\<close> (carrying the value).\<close>

definition LabelEnum_call :: "nat \<Rightarrow> error + LabelEnum" where
  "LabelEnum_call c =
     (if c = 0 then Inr deprecated
      else if c = 1 then Inr pure
      else if c = 2 then Inr idempotent
      else Inl (ValueError (Num (int c))))"

section \<open>\<open>_Registry\<close>\<close>

text \<open>
  \<open>object.__new__(cls, *args, **kwargs)\<close>, reached through \<open>super(_Registry, cls).__new__\<close>:
  since \<open>_Registry\<close> overrides \<open>__new__\<close>, CPython rejects any extra argument; otherwise it
  allocates an instance distinct from every instance the cache holds.
\<close>

definition fresh_instance :: "state \<Rightarrow> nat" where
  "fresh_instance st = Suc (fold max (map snd (cache st)) 0)"

definition object_new ::
  "pytype \<Rightarrow> pyarg list \<Rightarrow> (string \<times> pyarg) list \<Rightarrow> state \<Rightarrow> error + nat" where
  "object_new cls posargs kwargs st =
     (if posargs \<noteq> [] \<or> kwargs \<noteq> []
      then Inl (TypeError (Str ''object.__new__() takes exactly one argument (the type to instantiate)''))
      else Inr (fresh_instance st))"

text \<open>
  \<open>_Registry.__new__\<close>. A construction call \<open>cls(*args, **kwargs)\<close> runs it and then
  \<open>object.__init__\<close>, which accepts the arguments because \<open>__new__\<close> is overridden and
  \<open>__init__\<close> is not; so the call returns what \<open>__new__\<close> returns.
\<close>

definition Registry_new ::
  "pytype \<Rightarrow> pyarg list \<Rightarrow> (string \<times> pyarg) list \<Rightarrow> state \<Rightarrow> (error + nat) \<times> state" where
  "Registry_new cls posargs kwargs st =
     (case map_of (cache st) cls of
        None \<Rightarrow>
          (case object_new cls posargs kwargs st of
             Inl e \<Rightarrow> (Inl e, st)
           | Inr self \<Rightarrow>
               (Inr self, st\<lparr>cache := AList.update cls self (cache st),
                              store := (store st)(self := Map.empty)\<rparr>))
      | Some self \<Rightarrow> (Inr self, st))"

text \<open>
  The three dictionary accesses \<open>self.__data[item]\<close>, \<open>self.__data[clb] = val\<close> and
  \<open>del self.__data[clb]\<close>; each hashes the key first.
\<close>

definition Registry_getitem :: "nat \<Rightarrow> pyobj \<Rightarrow> state \<Rightarrow> error + int" where
  "Registry_getitem self item st =
     (if \<not> hashable item then Inl (TypeError (Str ''unhashable type''))
      else case store st self item of None \<Rightarrow> Inl (KeyError (Obj item)) | Some v \<Rightarrow> Inr v)"

definition Registry_setitem :: "nat \<Rightarrow> pyobj \<Rightarrow> int \<Rightarrow> state \<Rightarrow> (error + unit) \<times> state" where
  "Registry_setitem self clb val st =
     (if \<not> hashable clb then (Inl (TypeError (Str ''unhashable type'')), st)
      else (Inr (), st\<lparr>store := (store st)(self := (store st self)(clb \<mapsto> val))\<rparr>))"

definition Registry_delitem :: "nat \<Rightarrow> pyobj \<Rightarrow> state \<Rightarrow> (error + unit) \<times> state" where
  "Registry_delitem self clb st =
     (if \<not> hashable clb then (Inl (TypeError (Str ''unhashable type'')), st)
      else case store st self clb of
        None \<Rightarrow> (Inl (KeyError (Obj clb)), st)
      | Some v \<Rightarrow> (Inr (), st\<lparr>store := (store st)(self := (store st self)(clb := None))\<rparr>))"

text \<open>\<open>item in reg\<close>, the \<open>Mapping\<close> mixin: \<open>reg[item]\<close> with \<open>KeyError\<close> caught.\<close>

definition Registry_contains :: "nat \<Rightarrow> pyobj \<Rightarrow> state \<Rightarrow> error + bool" where
  "Registry_contains self item st =
     (case Registry_getitem self item st of
        Inl (KeyError a) \<Rightarrow> Inr False
      | Inl e \<Rightarrow> Inl e
      | Inr v \<Rightarrow> Inr True)"

text \<open>
  The decoding loop of \<open>get_info\<close>: \<open>n\<close> the remaining bitmask, \<open>c\<close> the bit index,
  \<open>labels\<close> the names collected so far.
\<close>

function get_info_loop :: "int \<Rightarrow> nat \<Rightarrow> string list \<Rightarrow> error + string list" where
  "get_info_loop n c labels =
     (if n > 0 then
        (if n mod 2 \<noteq> 0 then
           (case LabelEnum_call c of
              Inl e \<Rightarrow> Inl e
            | Inr l \<Rightarrow> get_info_loop (drop_bit 1 n) (c + 1) (labels @ [label_name l]))
         else get_info_loop (drop_bit 1 n) (c + 1) labels)
      else Inr labels)"
  by pat_completeness auto
termination
  by (relation "measure (\<lambda>(n, c, labels). nat n)") (auto simp: drop_bit_eq_div)

declare get_info_loop.simps [simp del]

definition Registry_get_info :: "nat \<Rightarrow> pyobj \<Rightarrow> state \<Rightarrow> error + string list" where
  "Registry_get_info self clb st =
     (if \<not> callable clb then Inl (ValueError (Str ''clb must be callable.''))
      else if \<not> hashable clb then Inl (TypeError (Str ''unhashable type''))
      else case store st self clb of
        None \<Rightarrow>
          (case obj_name clb of
             Some nm \<Rightarrow> Inl (KeyError (Str (''Callable ('' @ nm @ '') not in Registry.'')))
           | None \<Rightarrow> Inl (KeyError (Str ''Callable not in Registry.'')))
      | Some n \<Rightarrow> get_info_loop n 0 [])"

section \<open>\<open>register\<close>\<close>

text \<open>
  The function object \<open>_inner\<close> that \<open>def _inner\<close> creates under \<open>@wraps(clb)\<close>: a callable
  carrying the \<open>__name__\<close> of \<open>clb\<close> when \<open>clb\<close> has one. Its identity \<open>i\<close> is chosen by the
  runtime.
\<close>

definition make_inner :: "nat \<Rightarrow> pyobj \<Rightarrow> pyobj" where
  "make_inner i clb =
     \<lparr>obj_id = i, callable = True, hashable = True,
      obj_name = Some (case obj_name clb of Some nm \<Rightarrow> nm | None \<Rightarrow> ''_inner'')\<rparr>"

text \<open>The closure: the function object, and the variables \<open>reg\<close> and \<open>clb\<close> it captures.\<close>

record closure =
  fn :: pyobj
  reg_cell :: nat
  wrapped :: pyobj

text \<open>\<open>sum(2**_LabelEnum[name] for name in names)\<close>, from the start value \<open>acc\<close>.\<close>

fun sum_bits :: "string list \<Rightarrow> int \<Rightarrow> error + int" where
  "sum_bits [] acc = Inr acc"
| "sum_bits (nm # names) acc =
     (case LabelEnum_getitem nm of
        Inl e \<Rightarrow> Inl e
      | Inr l \<Rightarrow> sum_bits names (acc + 2 ^ label_value l))"

text \<open>\<open>clb.__name__\<close>.\<close>

definition getattr_name :: "pyobj \<Rightarrow> error + string" where
  "getattr_name obj =
     (case obj_name obj of
        None \<Rightarrow> Inl (AttributeError (Str ''__name__''))
      | Some nm \<Rightarrow> Inr nm)"

text \<open>
  \<open>_reg_callable(clb)\<close> of \<open>register(*names)\<close>; \<open>i\<close> is the identity of the new \<open>_inner\<close>.
\<close>

definition reg_callable ::
  "string list \<Rightarrow> pyobj \<Rightarrow> nat \<Rightarrow> state \<Rightarrow> (error + closure) \<times> state" where
  "reg_callable names clb i st =
     (let inner = make_inner i clb in
      case Registry_new Registry [] [] st of
        (Inl e, st1) \<Rightarrow> (Inl e, st1)
      | (Inr reg, st1) \<Rightarrow>
          (case Registry_contains reg inner st1 of
             Inl e \<Rightarrow> (Inl e, st1)
           | Inr present \<Rightarrow>
               (case (if present
                      then (case getattr_name clb of
                              Inl e \<Rightarrow> (Inl e, st1)
                            | Inr nm \<Rightarrow>
                                (Inr (), warn UserWarning
                                           (''Callable ('' @ nm @ '') already registered.'') st1))
                      else (Inr (), st1)) of
                  (Inl e, st2) \<Rightarrow> (Inl e, st2)
                | (Inr u, st2) \<Rightarrow>
                    (case sum_bits names 0 of
                       Inl e \<Rightarrow> (Inl e, st2)
                     | Inr v \<Rightarrow>
                         (case Registry_setitem reg inner v st2 of
                            (Inl e, st3) \<Rightarrow> (Inl e, st3)
                          | (Inr u, st3) \<Rightarrow>
                              (Inr \<lparr>fn = inner, reg_cell = reg, wrapped = clb\<rparr>, st3))))))"

definition register :: "string list \<Rightarrow> pyobj \<Rightarrow> nat \<Rightarrow> state \<Rightarrow> (error + closure) \<times> state" where
  "register names = reg_callable names"

text \<open>
  The body of \<open>_inner(*args, **kwargs)\<close>. \<open>has_label\<close> is the test
  \<open>(reg[_inner] >> _LabelEnum[name]) % 2\<close>; \<open>call\<close> is the call of a Python object, here
  of the captured \<open>clb\<close>, which may fail, return a value and change the state.
\<close>

definition has_label :: "nat \<Rightarrow> pyobj \<Rightarrow> string \<Rightarrow> state \<Rightarrow> error + bool" where
  "has_label reg inner nm st =
     (case Registry_getitem reg inner st of
        Inl e \<Rightarrow> Inl e
      | Inr n \<Rightarrow>
          (case LabelEnum_getitem nm of
             Inl e \<Rightarrow> Inl e
           | Inr l \<Rightarrow> Inr (drop_bit (label_value l) n mod 2 \<noteq> 0)))"

type_synonym pycall =
  "pyobj \<Rightarrow> pyarg list \<Rightarrow> (string \<times> pyarg) list \<Rightarrow> state \<Rightarrow> (error + pyarg) \<times> state"

definition inner_call ::
  "pycall \<Rightarrow> closure \<Rightarrow> pyarg list \<Rightarrow> (string \<times> pyarg) list \<Rightarrow> state \<Rightarrow> (error + pyarg) \<times> state" where
  "inner_call call c posargs kwargs st =
     (case has_label (reg_cell c) (fn c) ''deprecated'' st of
        Inl e \<Rightarrow> (Inl e, st)
      | Inr b0 \<Rightarrow>
          (let st1 = (if b0 then warn RegistryWarning ''Function is deprecated.'' st else st) in
           case has_label (reg_cell c) (fn c) ''pure'' st1 of
             Inl e \<Rightarrow> (Inl e, st1)
           | Inr b1 \<Rightarrow>
               (let st2 = (if b1 then warn RegistryWarning ''Function is pure.'' st1 else st1) in
                case has_label (reg_cell c) (fn c) ''idempotent'' st2 of
                  Inl e \<Rightarrow> (Inl e, st2)
                | Inr b2 \<Rightarrow>
                    (let st3 = (if b2 then warn RegistryWarning ''Function is idempotent.'' st2
                                else st2)
                     in call (wrapped c) posargs kwargs st3))))"

section \<open>Lookup functions\<close>

text \<open>
  \<open>getinfo(clb, val=None)\<close>: \<open>val\<close> is \<open>Optional[Any]\<close>, with \<open>None\<close> for "no default".
  The result is the list of labels or the default.
\<close>

datatype 'd info = Labels "string list" | Default 'd

definition getinfo :: "pyobj \<Rightarrow> 'd option \<Rightarrow> state \<Rightarrow> (error + 'd info) \<times> state" where
  "getinfo clb val st =
     (case Registry_new Registry [] [] st of
        (Inl e, st1) \<Rightarrow> (Inl e, st1)
      | (Inr reg, st1) \<Rightarrow>
          (case Registry_get_info reg clb st1 of
             Inl (KeyError a) \<Rightarrow>
               (case val of
                  None \<Rightarrow> (Inl (KeyError a), st1)
                | Some d \<Rightarrow> (Inr (Default d), st1))
           | Inl e \<Rightarrow> (Inl e, st1)
           | Inr labels \<Rightarrow> (Inr (Labels labels), st1)))"

text \<open>
  The loop of \<open>getinfovars\<close> over \<open>vs.values()\<close>. In \<open>info[item.__name__] = reg.get_info(item)\<close>
  the right-hand side is evaluated first; only \<open>KeyError\<close> is caught.
\<close>

fun getinfovars_loop ::
  "nat \<Rightarrow> pyobj list \<Rightarrow> (string \<rightharpoonup> string list) \<Rightarrow> state \<Rightarrow> error + (string \<rightharpoonup> string list)" where
  "getinfovars_loop reg [] info st = Inr info"
| "getinfovars_loop reg (item # items) info st =
     (if callable item then
        (case Registry_get_info reg item st of
           Inl (KeyError a) \<Rightarrow> getinfovars_loop reg items info st
         | Inl e \<Rightarrow> Inl e
         | Inr labels \<Rightarrow>
             (case getattr_name item of
                Inl e \<Rightarrow> Inl e
              | Inr nm \<Rightarrow> getinfovars_loop reg items (info(nm \<mapsto> labels)) st))
      else getinfovars_loop reg items info st)"

definition getinfovars ::
  "(string \<times> pyobj) list \<Rightarrow> state \<Rightarrow> (error + (string \<rightharpoonup> string list)) \<times> state" where
  "getinfovars vs st =
     (case Registry_new Registry [] [] st of
        (Inl e, st1) \<Rightarrow> (Inl e, st1)
      | (Inr reg, st1) \<Rightarrow> (getinfovars_loop reg (map snd vs) Map.empty st1, st1))"

text \<open>A module, as far as \<open>vars(module)\<close> shows it: its bindings in order.\<close>

datatype pymodule = Module "(string \<times> pyobj) list"

fun vars :: "pymodule \<Rightarrow> (string \<times> pyobj) list" where
  "vars (Module bindings) = bindings"

definition getinfomodule ::
  "pymodule \<Rightarrow> state \<Rightarrow> (error + (string \<rightharpoonup> string list)) \<times> state" where
  "getinfomodule module = getinfovars (vars module)"

fun getinfoiter_loop ::
  "nat \<Rightarrow> pyobj list \<Rightarrow> (pyobj \<rightharpoonup> string list) \<Rightarrow> state \<Rightarrow> error + (pyobj \<rightharpoonup> string list)" where
  "getinfoiter_loop reg [] info st = Inr info"
| "getinfoiter_loop reg (item # items) info st =
     (if callable item then
        (case Registry_get_info reg item st of
           Inl (KeyError a) \<Rightarrow> getinfoiter_loop reg items info st
         | Inl e \<Rightarrow> Inl e
         | Inr labels \<Rightarrow> getinfoiter_loop reg items (info(item \<mapsto> labels)) st)
      else getinfoiter_loop reg items info st)"

definition getinfoiter ::
  "pyobj list \<Rightarrow> state \<Rightarrow> (error + (pyobj \<rightharpoonup> string list)) \<times> state" where
  "getinfoiter iterable st =
     (case Registry_new Registry [] [] st of
        (Inl e, st1) \<Rightarrow> (Inl e, st1)
      | (Inr reg, st1) \<Rightarrow> (getinfoiter_loop reg iterable Map.empty st1, st1))"

section \<open>\<open>check_signature\<close>\<close>

text \<open>
  An annotation is either still the text written in the source (what \<open>__annotations__\<close>
  holds under \<open>from __future__ import annotations\<close>) or the object it evaluates to.
\<close>

datatype annotation = Text string | Resolved string

text \<open>
  The named tuple of \<open>inspect.getfullargspec\<close>, which is also the shape of the expected
  fields \<open>check_signature\<close> takes. Dictionaries compare by content.
\<close>

record fullargspec =
  args :: "string list"
  varargs :: "string option"
  varkw :: "string option"
  defaults :: "pyarg list option"
  kwonlyargs :: "string list"
  kwonlydefaults :: "(string \<rightharpoonup> pyarg) option"
  annotations :: "string \<rightharpoonup> annotation"

text \<open>
  A callable under introspection: what \<open>getfullargspec(clb)\<close> and \<open>get_type_hints(clb)\<close>
  give for it (either may raise).
\<close>

record pycallable =
  getfullargspec :: "error + fullargspec"
  get_type_hints :: "error + (string \<rightharpoonup> annotation)"

text \<open>\<open>getattr(gfas, attr) == locals()[attr]\<close> for the attribute of that name.\<close>

definition attr_equal :: "string \<Rightarrow> fullargspec \<Rightarrow> fullargspec \<Rightarrow> bool" where
  "attr_equal attr gfas expected =
     (if attr = ''annotations'' then annotations gfas = annotations expected
      else if attr = ''args'' then args gfas = args expected
      else if attr = ''varargs'' then varargs gfas = varargs expected
      else if attr = ''varkw'' then varkw gfas = varkw expected
      else if attr = ''defaults'' then defaults gfas = defaults expected
      else if attr = ''kwonlyargs'' then kwonlyargs gfas = kwonlyargs expected
      else if attr = ''kwonlydefaults'' then kwonlydefaults gfas = kwonlydefaults expected
      else False)"

text \<open>The \<open>for attr in [...]\<close> loop; a bare \<open>assert\<close> raises \<open>AssertionError\<close> without a message.\<close>

fun check_attrs :: "string list \<Rightarrow> fullargspec \<Rightarrow> fullargspec \<Rightarrow> error + unit" where
  "check_attrs [] gfas expected = Inr ()"
| "check_attrs (attr # attrs) gfas expected =
     (if attr_equal attr gfas expected then check_attrs attrs gfas expected
      else Inl AssertionError)"

definition check_signature :: "pycallable \<Rightarrow> fullargspec \<Rightarrow> error + unit" where
  "check_signature clb expected =
     (case getfullargspec clb of
        Inl e \<Rightarrow> Inl e
      | Inr gfas \<Rightarrow>
          (case get_type_hints clb of
             Inl e \<Rightarrow> Inl e
           | Inr hints \<Rightarrow>
               if annotations expected = hints
               then check_attrs [''annotations'', ''args'', ''varargs'', ''varkw'', ''defaults'',
                                 ''kwonlyargs'', ''kwonlydefaults''] gfas expected
               else Inl AssertionError))"

section \<open>Observations and example objects\<close>

text \<open>
  The entries of the \<open>_Registry\<close> singleton: the \<open>__data\<close> of the cached instance, and
  nothing before the first construction.
\<close>

definition entries :: "state \<Rightarrow> (pyobj \<rightharpoonup> int)" where
  "entries st =
     (case map_of (cache st) Registry of None \<Rightarrow> Map.empty | Some self \<Rightarrow> store st self)"

definition label_names :: "string list" where
  "label_names = [''deprecated'', ''pure'', ''idempotent'']"

text \<open>The bit value \<open>2 ** _LabelEnum[nm]\<close> of a name of the enumeration.\<close>

definition weight :: "string \<Rightarrow> int" where
  "weight nm = (if nm = ''deprecated'' then 1 else if nm = ''pure'' then 2 else 4)"

text \<open>A process that has not constructed any registry yet, and some objects.\<close>

definition st0 :: state where
  "st0 = \<lparr>cache = [], store = (\<lambda>self. Map.empty), emitted = []\<rparr>"

definition f0 :: pyobj where
  "f0 = \<lparr>obj_id = 1, callable = True, hashable = True, obj_name = Some ''f''\<rparr>"

text \<open>The message of the warning \<open>_inner\<close> emits for a label.\<close>

fun label_message :: "LabelEnum \<Rightarrow> string" where
  "label_message deprecated = ''Function is deprecated.''"
| "label_message pure = ''Function is pure.''"
| "label_message idempotent = ''Function is idempotent.''"

text \<open>The labels whose bit is set in a bitmask, by ascending bit index.\<close>

definition warned :: "int \<Rightarrow> LabelEnum list" where
  "warned n = filter (\<lambda>l. bit n (label_value l)) [deprecated, pure, idempotent]"

text \<open>
  The closure that decorating \<open>f0\<close> gives when the runtime numbers the new function 2 and
  the registry is the first instance, and the state in which its bitmask is \<open>n\<close>.
\<close>

definition c1 :: closure where
  "c1 = \<lparr>fn = make_inner 2 f0, reg_cell = 1, wrapped = f0\<rparr>"

definition registered_state :: "int \<Rightarrow> state" where
  "registered_state n =
     \<lparr>cache = [(Registry, 1)], store = (\<lambda>self. Map.empty)(1 := [make_inner 2 f0 \<mapsto> n]),
      emitted = []\<rparr>"

text \<open>A callable that returns the number of its positional arguments.\<close>

definition call0 :: pycall where
  "call0 obj posargs kwargs st = (Inr (Num (int (length posargs))), st)"

text \<open>
  The bitmask as the specification words it: the bitwise OR of the bit values of the given
  names, from the start value \<open>acc\<close>. It is compared with \<open>sum_bits\<close>, which is what the
  code computes.
\<close>

fun or_bits :: "string list \<Rightarrow> int \<Rightarrow> error + int" where
  "or_bits [] acc = Inr acc"
| "or_bits (nm # names) acc =
     (case LabelEnum_getitem nm of
        Inl e \<Rightarrow> Inl e
      | Inr l \<Rightarrow> or_bits names (or acc (2 ^ label_value l)))"

text \<open>The bitmask that has exactly the bits of the names in \<open>S\<close>.\<close>

definition msum :: "string set \<Rightarrow> int" where
  "msum S = (if ''deprecated'' \<in> S then 1 else 0) + (if ''pure'' \<in> S then 2 else 0)
       + (if ''idempotent'' \<in> S then 4 else 0)"

text \<open>The names \<open>get_info\<close> gives for a bitmask that has label bits only.\<close>

definition decode :: "int \<Rightarrow> string list" where
  "decode n = map label_name (warned n)"

text \<open>
  What an item contributes to the result of \<open>getinfovars\<close> against the registry content
  \<open>m\<close>: an entry under its \<open>__name__\<close> if it is a registered callable with a name.
\<close>

definition named_entry :: "(pyobj \<rightharpoonup> int) \<Rightarrow> pyobj \<Rightarrow> (string \<times> string list) list" where
  "named_entry m x =
     (if callable x then
        (case m x of
           None \<Rightarrow> []
         | Some n \<Rightarrow> (case obj_name x of None \<Rightarrow> [] | Some nm \<Rightarrow> [(nm, decode n)]))
      else [])"

text \<open>More objects, and two registries holding decorated callables.\<close>

definition f1 :: pyobj where
  "f1 = \<lparr>obj_id = 3, callable = True, hashable = True, obj_name = Some ''g''\<rparr>"

definition h0 :: pyobj where
  "h0 = \<lparr>obj_id = 4, callable = True, hashable = True, obj_name = Some ''h''\<rparr>"

definition o0 :: pyobj where
  "o0 = \<lparr>obj_id = 5, callable = False, hashable = True, obj_name = None\<rparr>"

definition scan_state :: state where
  "scan_state =
     \<lparr>cache = [(Registry, 1)],
      store = (\<lambda>self. Map.empty)(1 := [make_inner 10 f0 \<mapsto> 2, make_inner 11 f1 \<mapsto> 5]),
      emitted = []\<rparr>"

definition two_state :: state where
  "two_state =
     \<lparr>cache = [(Registry, 1)],
      store = (\<lambda>self. Map.empty)(1 := [make_inner 10 f0 \<mapsto> 2, make_inner 12 f0 \<mapsto> 1]),
      emitted = []\<rparr>"


text \<open>
  The registry after \<open>f0\<close> has been decorated once with \<open>pure\<close>, the new function being
  numbered 10.
\<close>

definition once_state :: state where
  "once_state =
     \<lparr>cache = [(Registry, 1)], store = (\<lambda>self. Map.empty)(1 := [make_inner 10 f0 \<mapsto> 2]),
      emitted = []\<rparr>"

text \<open>
  A callable that cannot be hashed (an instance of a class with \<open>__call__\<close> and \<open>__eq__\<close>
  but no \<open>__hash__\<close>), a hashable callable without \<open>__name__\<close> (such as a
  \<open>functools.partial\<close> object), and the registry after \<open>_Registry()[p0] = 1\<close>.
\<close>

definition u0 :: pyobj where
  "u0 = \<lparr>obj_id = 6, callable = True, hashable = False, obj_name = None\<rparr>"

definition p0 :: pyobj where
  "p0 = \<lparr>obj_id = 7, callable = True, hashable = True, obj_name = None\<rparr>"

definition nameless_state :: state where
  "nameless_state =
     \<lparr>cache = [(Registry, 1)], store = (\<lambda>self. Map.empty)(1 := [p0 \<mapsto> 1]), emitted = []\<rparr>"

text \<open>
  The signature of \<open>def f(a: int, b=1, *args, c, **kwargs)\<close>, that function defined with
  evaluated annotations, and the same function defined under
  \<open>from __future__ import annotations\<close>, whose \<open>__annotations__\<close> hold text.
\<close>

definition spec_f :: fullargspec where
  "spec_f =
     \<lparr>args = [''a'', ''b''], varargs = Some ''args'', varkw = Some ''kwargs'',
      defaults = Some [Num 1], kwonlyargs = [''c''], kwonlydefaults = None,
      annotations = [''a'' \<mapsto> Resolved ''int'']\<rparr>"

definition clb_f :: pycallable where
  "clb_f = \<lparr>getfullargspec = Inr spec_f, get_type_hints = Inr [''a'' \<mapsto> Resolved ''int'']\<rparr>"

definition clb_deferred :: pycallable where
  "clb_deferred =
     \<lparr>getfullargspec = Inr (spec_f\<lparr>annotations := [''a'' \<mapsto> Text ''int'']\<rparr>),
      get_type_hints = Inr [''a'' \<mapsto> Resolved ''int'']\<rparr>"


text \<open>No two classes share an instance: it holds initially and every construction keeps it.\<close>

definition instances_distinct :: "state \<Rightarrow> bool" where
  "instances_distinct st = distinct (map snd (cache st))"


section \<open>Basic facts about the registry\<close>

lemma make_inner_callable [simp]: "callable (make_inner i f)"
  by (simp add: make_inner_def)

lemma make_inner_hashable [simp]: "hashable (make_inner i f)"
  by (simp add: make_inner_def)

lemma Registry_new_noargs:
  "\<exists>self st1. Registry_new Registry [] [] st = (Inr self, st1) \<and> store st1 self = entries st
      \<and> entries st1 = entries st \<and> emitted st1 = emitted st
      \<and> map_of (cache st1) Registry = Some self"
  by (auto simp: Registry_new_def object_new_def entries_def update_conv' split: option.splits)

lemma entries_eq:
  "map_of (cache st) Registry = Some self \<Longrightarrow> entries st = store st self"
  by (simp add: entries_def)

lemma sum_bits_valid:
  "set L \<subseteq> set label_names \<Longrightarrow> sum_bits L acc = Inr (acc + sum_list (map weight L))"
  by (induction L arbitrary: acc) (auto simp: label_names_def LabelEnum_getitem_def weight_def)

lemma sum_list_weight:
  assumes "distinct L" and "set L \<subseteq> set label_names"
  shows "sum_list (map weight L) =
     (if ''deprecated'' \<in> set L then 1 else 0) + (if ''pure'' \<in> set L then 2 else 0)
       + (if ''idempotent'' \<in> set L then 4 else 0)"
proof -
  have "sum_list (map weight L) = sum weight (set L)"
    using assms(1) by (simp add: sum_list_distinct_conv_sum_set)
  also have "set L = set label_names \<inter> set L"
    using assms(2) by auto
  also have "sum weight (set label_names \<inter> set L) =
      sum (\<lambda>x. if x \<in> set L then weight x else 0) (set label_names)"
    by (rule sum.inter_restrict) simp
  also have "\<dots> = (if ''deprecated'' \<in> set L then 1 else 0) + (if ''pure'' \<in> set L then 2 else 0)
       + (if ''idempotent'' \<in> set L then 4 else 0)"
    by (simp add: label_names_def weight_def)
  finally show ?thesis .
qed

lemma get_info_loop_small:
  "get_info_loop 0 0 [] = Inr []"
  "get_info_loop 1 0 [] = Inr [''deprecated'']"
  "get_info_loop 2 0 [] = Inr [''pure'']"
  "get_info_loop 3 0 [] = Inr [''deprecated'', ''pure'']"
  "get_info_loop 4 0 [] = Inr [''idempotent'']"
  "get_info_loop 5 0 [] = Inr [''deprecated'', ''idempotent'']"
  "get_info_loop 6 0 [] = Inr [''pure'', ''idempotent'']"
  "get_info_loop 7 0 [] = Inr [''deprecated'', ''pure'', ''idempotent'']"
  by (simp_all add: get_info_loop.simps LabelEnum_call_def drop_bit_eq_div)

text \<open>What a registration does when the new closure is not yet a key of the registry.\<close>

lemma reg_callable_fresh:
  assumes "make_inner i f \<notin> dom (entries st)" and "sum_bits names 0 = Inr v"
  shows "\<exists>c st'. reg_callable names f i st = (Inr c, st') \<and> fn c = make_inner i f \<and> wrapped c = f
      \<and> map_of (cache st') Registry = Some (reg_cell c)
      \<and> store st' (reg_cell c) = (entries st)(make_inner i f \<mapsto> v)
      \<and> entries st' = (entries st)(make_inner i f \<mapsto> v)
      \<and> emitted st' = emitted st"
proof -
  obtain self st1 where n: "Registry_new Registry [] [] st = (Inr self, st1)"
    and s: "store st1 self = entries st" and e: "entries st1 = entries st"
    and w: "emitted st1 = emitted st" and c: "map_of (cache st1) Registry = Some self"
    using Registry_new_noargs by blast
  have absent: "store st1 self (make_inner i f) = None"
    using assms(1) s by (auto simp: dom_def)
  show ?thesis
    using n s e w c absent assms(2)
    by (simp add: reg_callable_def Registry_contains_def Registry_getitem_def
        Registry_setitem_def Let_def)
       (simp add: entries_eq [of _ self])
qed

text \<open>What it does when the closure is one already.\<close>

lemma reg_callable_present:
  assumes "make_inner i f \<in> dom (entries st)" and "obj_name f = Some nm"
    and "sum_bits names 0 = Inr v"
  shows "\<exists>c st'. reg_callable names f i st = (Inr c, st') \<and> fn c = make_inner i f \<and> wrapped c = f
      \<and> map_of (cache st') Registry = Some (reg_cell c)
      \<and> store st' (reg_cell c) = (entries st)(make_inner i f \<mapsto> v)
      \<and> entries st' = (entries st)(make_inner i f \<mapsto> v)
      \<and> emitted st' = emitted st @ [(UserWarning, ''Callable ('' @ nm @ '') already registered.'')]"
proof -
  obtain self st1 where n: "Registry_new Registry [] [] st = (Inr self, st1)"
    and s: "store st1 self = entries st" and e: "entries st1 = entries st"
    and w: "emitted st1 = emitted st" and c: "map_of (cache st1) Registry = Some self"
    using Registry_new_noargs by blast
  obtain old where present: "store st1 self (make_inner i f) = Some old"
    using assms(1) s by (auto simp: dom_def)
  show ?thesis
    using n s e w c present assms(2,3)
    by (simp add: reg_callable_def Registry_contains_def Registry_getitem_def
        Registry_setitem_def getattr_name_def warn_def Let_def)
       (simp add: entries_eq [of _ self])
qed

section \<open>Decorating and describing\<close>

text \<open>
  Claim C1. For every sequence \<open>L\<close> of label names without duplicates, all of them names of
  the enumeration, and every callable \<open>f\<close>, decorating \<open>f\<close> with \<open>register(*L)\<close> succeeds, and
  \<open>get_info\<close> of the resulting instrumented callable returns exactly the names of \<open>L\<close>, listed
  by ascending bit index (deprecated, pure, idempotent) whatever the order of \<open>L\<close>.
  A new closure is never a key of the registry; were it one, the duplicate notice would read
  \<open>f.__name__\<close>, so \<open>f\<close> is then taken to have a name.
\<close>

theorem register_then_get_info:
  assumes "distinct L" and "set L \<subseteq> {''deprecated'', ''pure'', ''idempotent''}"
    and "make_inner i f \<in> dom (entries st) \<longrightarrow> obj_name f \<noteq> None"
  shows "\<exists>c st'. register L f i st = (Inr c, st') \<and>
           Registry_get_info (reg_cell c) (fn c) st' =
             Inr (filter (\<lambda>nm. nm \<in> set L) [''deprecated'', ''pure'', ''idempotent''])"
proof -
  have sub: "set L \<subseteq> set label_names"
    using assms(2) by (simp add: label_names_def)
  define v where "v = sum_list (map weight L)"
  have sb: "sum_bits L 0 = Inr v"
    using sum_bits_valid [OF sub, of 0] by (simp add: v_def)
  have vv: "v = (if ''deprecated'' \<in> set L then 1 else 0) + (if ''pure'' \<in> set L then 2 else 0)
       + (if ''idempotent'' \<in> set L then 4 else 0)"
    unfolding v_def by (rule sum_list_weight [OF assms(1) sub])
  have dec: "get_info_loop v 0 [] =
      Inr (filter (\<lambda>nm. nm \<in> set L) [''deprecated'', ''pure'', ''idempotent''])"
    unfolding vv by (simp add: get_info_loop_small)
  have "\<exists>c st'. reg_callable L f i st = (Inr c, st') \<and> fn c = make_inner i f
      \<and> store st' (reg_cell c) = (entries st)(make_inner i f \<mapsto> v)"
  proof (cases "make_inner i f \<in> dom (entries st)")
    case True
    then obtain nm where "obj_name f = Some nm"
      using assms(3) by auto
    from reg_callable_present [OF True this sb] show ?thesis
      by blast
  next
    case False
    from reg_callable_fresh [OF False sb] show ?thesis
      by blast
  qed
  then obtain c st' where r: "reg_callable L f i st = (Inr c, st')"
    and f: "fn c = make_inner i f"
    and s: "store st' (reg_cell c) = (entries st)(make_inner i f \<mapsto> v)"
    by blast
  have "Registry_get_info (reg_cell c) (fn c) st' = get_info_loop v 0 []"
    by (simp add: Registry_get_info_def f s)
  with r dec show ?thesis
    by (simp add: register_def)
qed

theorem register_then_get_info_witness:
  "distinct [''idempotent'', ''deprecated''] \<and>
   (\<exists>c st'. register [''idempotent'', ''deprecated''] f0 2 st0 = (Inr c, st') \<and>
           Registry_get_info (reg_cell c) (fn c) st' = Inr [''deprecated'', ''idempotent''])"
  using register_then_get_info [of "[''idempotent'', ''deprecated'']" 2 f0 st0]
  by (simp add: entries_def st0_def)

lemma reg_callable_Inr:
  assumes "reg_callable names f i st = (Inr c, st')"
  shows "\<exists>v. sum_bits names 0 = Inr v \<and> fn c = make_inner i f \<and> wrapped c = f
      \<and> hashable (fn c)
      \<and> store st' (reg_cell c) (fn c) = Some v
      \<and> map_of (cache st') Registry = Some (reg_cell c)
      \<and> entries st' = (entries st)(make_inner i f \<mapsto> v)"
proof -
  obtain self st1 where n: "Registry_new Registry [] [] st = (Inr self, st1)"
    and s: "store st1 self = entries st" and cc: "map_of (cache st1) Registry = Some self"
    using Registry_new_noargs by blast
  show ?thesis
    using assms n s cc
    by (auto simp: reg_callable_def Let_def Registry_setitem_def warn_def entries_eq [of _ self]
        split: sum.splits if_splits prod.splits)
qed

lemma register_example:
  "register names f0 2 st0 =
     (case sum_bits names 0 of Inl e \<Rightarrow> (Inl e, registered_state 0\<lparr>store := (\<lambda>self. Map.empty)\<rparr>)
      | Inr v \<Rightarrow> (Inr c1, registered_state v))"
  by (simp add: register_def reg_callable_def Registry_new_def object_new_def fresh_instance_def
      st0_def c1_def registered_state_def Registry_contains_def Registry_getitem_def
      Registry_setitem_def Let_def fun_eq_iff split: sum.splits)

section \<open>Invoking an instrumented callable\<close>

lemma has_label_registered:
  "hashable x \<Longrightarrow> store st reg x = Some n \<Longrightarrow> LabelEnum_getitem nm = Inr l \<Longrightarrow>
     has_label reg x nm st = Inr (bit n (label_value l))"
  by (simp add: has_label_def Registry_getitem_def bit_iff_odd_drop_bit odd_iff_mod_2_eq_one)

lemma LabelEnum_getitem_names:
  "LabelEnum_getitem ''deprecated'' = Inr deprecated"
  "LabelEnum_getitem ''pure'' = Inr pure"
  "LabelEnum_getitem ''idempotent'' = Inr idempotent"
  by (simp_all add: LabelEnum_getitem_def)

lemma inner_call_registered:
  assumes "hashable (fn c)" and "store st (reg_cell c) (fn c) = Some n"
  shows "inner_call call c posargs kwargs st =
           call (wrapped c) posargs kwargs
             (st\<lparr>emitted := emitted st @ map (\<lambda>l. (RegistryWarning, label_message l)) (warned n)\<rparr>)"
proof -
  have h: "\<And>s nm l. store s = store st \<Longrightarrow> LabelEnum_getitem nm = Inr l \<Longrightarrow>
      has_label (reg_cell c) (fn c) nm s = Inr (bit n (label_value l))"
    using assms by (simp add: has_label_registered)
  show ?thesis
    by (simp add: inner_call_def h LabelEnum_getitem_names warn_def warned_def Let_def)
qed

lemma inner_call_absent:
  assumes "hashable (fn c)" and "store st (reg_cell c) (fn c) = None"
  shows "inner_call call c posargs kwargs st = (Inl (KeyError (Obj (fn c))), st)"
  using assms by (simp add: inner_call_def has_label_def Registry_getitem_def)

lemma warned_small:
  "warned 0 = []" "warned 3 = [deprecated, pure]"
  by (simp_all add: warned_def bit_iff_odd_drop_bit drop_bit_eq_div)

text \<open>
  Claim C2. Let \<open>c\<close> be an instrumented callable produced by \<open>register\<close> from \<open>f\<close>, and \<open>n\<close>
  its registered bitmask when it is invoked. The invocation emits one warning for each
  label whose bit is set in \<open>n\<close>, each label with a message of its own, by ascending bit
  index; it then calls \<open>f\<close> with the same positional and keyword arguments, and its outcome
  (the value or the failure, and the state \<open>f\<close> leaves) is the outcome of that call. A
  callable registered with the empty sequence emits no warning. (Only the bits of the
  three labels are inspected.)
\<close>

theorem inner_call_warns_then_calls:
  assumes "register names f i s0 = (Inr c, s1)"
    and "store st (reg_cell c) (fn c) = Some n"
  shows "inner_call call c posargs kwargs st =
           call f posargs kwargs
             (st\<lparr>emitted := emitted st @ map (\<lambda>l. (RegistryWarning, label_message l)) (warned n)\<rparr>)
       \<and> set (warned n) = {l. bit n (label_value l)}
       \<and> distinct (warned n) \<and> sorted (map label_value (warned n))
       \<and> inj label_message
       \<and> (names = [] \<longrightarrow> inner_call call c posargs kwargs s1 = call f posargs kwargs s1)"
proof -
  from assms(1) obtain v where v: "sum_bits names 0 = Inr v" and w: "wrapped c = f"
    and h: "hashable (fn c)" and s: "store s1 (reg_cell c) (fn c) = Some v"
    using reg_callable_Inr unfolding register_def by blast
  have 1: "inner_call call c posargs kwargs st =
           call f posargs kwargs
             (st\<lparr>emitted := emitted st @ map (\<lambda>l. (RegistryWarning, label_message l)) (warned n)\<rparr>)"
    using inner_call_registered [OF h assms(2)] w by simp
  have univ: "set [deprecated, pure, idempotent] = UNIV"
  proof -
    have "l \<in> set [deprecated, pure, idempotent]" for l
      by (cases l) simp_all
    then show ?thesis by blast
  qed
  have 2: "set (warned n) = {l. bit n (label_value l)}"
    unfolding warned_def set_filter univ by simp
  have 3: "distinct (warned n)"
    by (simp add: warned_def)
  have 4: "sorted (map label_value (warned n))"
    by (simp add: warned_def)
  have 5: "inj label_message"
  proof (rule injI)
    fix a b
    assume "label_message a = label_message b"
    then show "a = b"
      by (cases a; cases b) simp_all
  qed
  have 6: "names = [] \<longrightarrow> inner_call call c posargs kwargs s1 = call f posargs kwargs s1"
  proof
    assume "names = []"
    with v have "v = 0" by simp
    with s have "store s1 (reg_cell c) (fn c) = Some 0" by simp
    from inner_call_registered [OF h this] w
    show "inner_call call c posargs kwargs s1 = call f posargs kwargs s1"
      by (simp add: warned_small)
  qed
  from 1 2 3 4 5 6 show ?thesis by blast
qed

theorem inner_call_warns_then_calls_witness:
  "register [''pure'', ''deprecated''] f0 2 st0 = (Inr c1, registered_state 3)
   \<and> store (registered_state 3) (reg_cell c1) (fn c1) = Some 3
   \<and> inner_call call0 c1 [Num 5] [] (registered_state 3) =
       (Inr (Num 1), (registered_state 3)
          \<lparr>emitted := [(RegistryWarning, ''Function is deprecated.''),
                       (RegistryWarning, ''Function is pure.'')]\<rparr>)
   \<and> register [] f0 2 st0 = (Inr c1, registered_state 0)
   \<and> inner_call call0 c1 [Num 5] [] (registered_state 0) = (Inr (Num 1), registered_state 0)"
proof -
  have h1: "register [''pure'', ''deprecated''] f0 2 st0 = (Inr c1, registered_state 3)"
    by (simp add: register_example LabelEnum_getitem_def)
  have h2: "store (registered_state 3) (reg_cell c1) (fn c1) = Some 3"
    by (simp add: registered_state_def c1_def)
  have k1: "register [] f0 2 st0 = (Inr c1, registered_state 0)"
    by (simp add: register_example)
  have k2: "store (registered_state 0) (reg_cell c1) (fn c1) = Some 0"
    by (simp add: registered_state_def c1_def)
  have e: "emitted (registered_state 3) = []"
    by (simp add: registered_state_def)
  from inner_call_warns_then_calls [OF h1 h2, of call0 "[Num 5]" "[]"]
  have a: "inner_call call0 c1 [Num 5] [] (registered_state 3) =
       (Inr (Num 1), (registered_state 3)
          \<lparr>emitted := [(RegistryWarning, ''Function is deprecated.''),
                       (RegistryWarning, ''Function is pure.'')]\<rparr>)"
    by (simp add: call0_def e warned_small)
  from inner_call_warns_then_calls [OF k1 k2, of call0 "[Num 5]" "[]"]
  have b: "inner_call call0 c1 [Num 5] [] (registered_state 0) = (Inr (Num 1), registered_state 0)"
    by (simp add: call0_def)
  from h1 h2 a k1 b show ?thesis by simp
qed

text \<open>
  Claim C10. The instrumented callable reads its bitmask from the registry at every
  invocation: when the entry of a callable produced by \<open>register\<close> is deleted, the next
  invocation fails with the \<open>KeyError\<close> of the registry lookup, without a warning and
  without calling the original callable (the outcome does not depend on \<open>call\<close>, and the
  state is the one the deletion left); and when the entry is overwritten with \<open>m\<close>, the
  next invocation warns for the labels of \<open>m\<close>.
\<close>

theorem inner_call_after_delitem:
  assumes "register names f i s0 = (Inr c, s1)"
    and "store st (reg_cell c) (fn c) = Some n"
  shows "fst (Registry_delitem (reg_cell c) (fn c) st) = Inr ()
       \<and> inner_call call c posargs kwargs (snd (Registry_delitem (reg_cell c) (fn c) st)) =
           (Inl (KeyError (Obj (fn c))), snd (Registry_delitem (reg_cell c) (fn c) st))
       \<and> fst (Registry_setitem (reg_cell c) (fn c) m st) = Inr ()
       \<and> inner_call call c posargs kwargs (snd (Registry_setitem (reg_cell c) (fn c) m st)) =
           call f posargs kwargs
             ((snd (Registry_setitem (reg_cell c) (fn c) m st))
                \<lparr>emitted := emitted st @ map (\<lambda>l. (RegistryWarning, label_message l)) (warned m)\<rparr>)"
proof -
  from assms(1) obtain v where w: "wrapped c = f" and h: "hashable (fn c)"
    using reg_callable_Inr unfolding register_def by blast
  let ?d = "Registry_delitem (reg_cell c) (fn c) st"
  have d1: "fst ?d = Inr ()"
    using assms(2) h by (simp add: Registry_delitem_def)
  have "store (snd ?d) (reg_cell c) (fn c) = None"
    using assms(2) h by (simp add: Registry_delitem_def)
  from inner_call_absent [OF h this]
  have d2: "inner_call call c posargs kwargs (snd ?d) = (Inl (KeyError (Obj (fn c))), snd ?d)" .
  let ?s = "snd (Registry_setitem (reg_cell c) (fn c) m st)"
  have s1: "fst (Registry_setitem (reg_cell c) (fn c) m st) = Inr ()"
    using h by (simp add: Registry_setitem_def)
  have "store ?s (reg_cell c) (fn c) = Some m"
    using h by (simp add: Registry_setitem_def)
  from inner_call_registered [OF h this, of call posargs kwargs] w
  have d3: "inner_call call c posargs kwargs ?s =
           call f posargs kwargs
             (?s\<lparr>emitted := emitted st @ map (\<lambda>l. (RegistryWarning, label_message l)) (warned m)\<rparr>)"
    using h by (simp add: Registry_setitem_def)
  from d1 d2 s1 d3 show ?thesis by blast
qed

theorem inner_call_after_delitem_witness:
  "register [''pure'', ''deprecated''] f0 2 st0 = (Inr c1, registered_state 3)
   \<and> store (registered_state 3) (reg_cell c1) (fn c1) = Some 3
   \<and> fst (Registry_delitem 1 (make_inner 2 f0) (registered_state 3)) = Inr ()
   \<and> inner_call call0 c1 [Num 5] [] (snd (Registry_delitem 1 (make_inner 2 f0) (registered_state 3))) =
       (Inl (KeyError (Obj (make_inner 2 f0))),
        (registered_state 3)\<lparr>store := (\<lambda>self. Map.empty)\<rparr>)"
proof -
  have h1: "register [''pure'', ''deprecated''] f0 2 st0 = (Inr c1, registered_state 3)"
    by (simp add: register_example LabelEnum_getitem_def)
  have h2: "store (registered_state 3) (reg_cell c1) (fn c1) = Some 3"
    by (simp add: registered_state_def c1_def)
  have d: "snd (Registry_delitem 1 (make_inner 2 f0) (registered_state 3)) =
      (registered_state 3)\<lparr>store := (\<lambda>self. Map.empty)\<rparr>"
    by (simp add: Registry_delitem_def registered_state_def fun_eq_iff)
  from inner_call_after_delitem [OF h1 h2, of call0 "[Num 5]" "[]" 0]
  show ?thesis
    using h1 h2 d by (simp add: c1_def)
qed

section \<open>The registered bitmask\<close>

lemma LabelEnum_getitem_valid:
  "nm \<in> set label_names \<Longrightarrow> \<exists>l. LabelEnum_getitem nm = Inr l \<and> label_name l = nm"
  by (auto simp: label_names_def LabelEnum_getitem_def)

lemma LabelEnum_getitem_invalid:
  "nm \<notin> set label_names \<Longrightarrow> LabelEnum_getitem nm = Inl (KeyError (Str nm))"
  by (simp add: label_names_def LabelEnum_getitem_def)

lemma sum_bits_unknown:
  "\<not> set L \<subseteq> set label_names \<Longrightarrow>
     \<exists>nm. nm \<in> set L \<and> nm \<notin> set label_names \<and> sum_bits L acc = Inl (KeyError (Str nm))"
proof (induction L arbitrary: acc)
  case Nil
  then show ?case by simp
next
  case (Cons x L)
  show ?case
  proof (cases "x \<in> set label_names")
    case True
    from LabelEnum_getitem_valid [OF True] obtain l where l: "LabelEnum_getitem x = Inr l"
      by blast
    from True Cons.prems have "\<not> set L \<subseteq> set label_names"
      by simp
    from Cons.IH [OF this, of "acc + 2 ^ label_value l"] obtain nm
      where "nm \<in> set L" and "nm \<notin> set label_names"
        and "sum_bits L (acc + 2 ^ label_value l) = Inl (KeyError (Str nm))"
      by blast
    with l show ?thesis
      by auto
  next
    case False
    then show ?thesis
      by (simp add: LabelEnum_getitem_invalid)
  qed
qed

lemma or_small1:
  "or (1::int) (a + b + c) = 1 + b + c" if "a \<in> {0, 1}" "b \<in> {0, 2}" "c \<in> {0, 4}"
  using that by auto

lemma or_small2:
  "or (2::int) (a + b + c) = a + 2 + c" if "a \<in> {0, 1}" "b \<in> {0, 2}" "c \<in> {0, 4}"
  using that by auto

lemma or_small4:
  "or (4::int) (a + b + c) = a + b + 4" if "a \<in> {0, 1}" "b \<in> {0, 2}" "c \<in> {0, 4}"
  using that by auto

lemma msum_insert:
  "or (2 ^ label_value l) (msum S) = msum (insert (label_name l) S)"
proof (cases l)
  case deprecated
  then show ?thesis unfolding msum_def by (simp add: or_small1)
next
  case pure
  then show ?thesis unfolding msum_def by (simp add: or_small2)
next
  case idempotent
  then show ?thesis unfolding msum_def by (simp add: or_small4)
qed

lemma or_bits_valid:
  "set L \<subseteq> set label_names \<Longrightarrow> or_bits L acc = Inr (or acc (msum (set L)))"
proof (induction L arbitrary: acc)
  case Nil
  then show ?case by (simp add: msum_def)
next
  case (Cons nm L)
  then have nm: "nm \<in> set label_names" and L: "set L \<subseteq> set label_names"
    by simp_all
  from LabelEnum_getitem_valid [OF nm] obtain l
    where l: "LabelEnum_getitem nm = Inr l" "label_name l = nm"
    by blast
  have "or_bits (nm # L) acc = Inr (or (or acc (2 ^ label_value l)) (msum (set L)))"
    using Cons.IH [OF L] l by simp
  also have "or (or acc (2 ^ label_value l)) (msum (set L)) = or acc (msum (insert nm (set L)))"
    using msum_insert [of l "set L"] l by (simp add: or.assoc)
  finally show ?case by simp
qed

text \<open>Without a repeated name the sum of the code is the OR of the specification.\<close>

lemma sum_bits_eq_or_bits:
  assumes "distinct L" and "set L \<subseteq> set label_names"
  shows "sum_bits L 0 = or_bits L 0"
proof -
  have "sum_list (map weight L) = msum (set L)"
    unfolding msum_def by (rule sum_list_weight [OF assms])
  with sum_bits_valid [OF assms(2), of 0] or_bits_valid [OF assms(2), of 0]
  show ?thesis by simp
qed

text \<open>
  Claim C4. The registered bitmask of the instrumented callable is the bitwise OR of the
  bit values \<open>2 ^ ordinal\<close> of the given names, so it does not depend on repetition or
  order; and \<open>register\<close> fails with \<open>KeyError\<close> when a name is not in the enumeration.
  The code adds the bit values instead: \<open>register('pure', 'pure')\<close> stores \<open>2 + 2 = 4\<close>, the
  bitmask of \<open>idempotent\<close>, where the OR is 2.
\<close>

theorem register_repeated_name:
  "register [''pure'', ''pure''] f0 2 st0 = (Inr c1, registered_state 4)
   \<and> store (registered_state 4) (reg_cell c1) (fn c1) = Some 4
   \<and> or_bits [''pure'', ''pure''] 0 = Inr 2
   \<and> Registry_get_info (reg_cell c1) (fn c1) (registered_state 4) = Inr [''idempotent'']"
  by (simp add: register_example LabelEnum_getitem_def registered_state_def c1_def
      Registry_get_info_def make_inner_def get_info_loop_small)

text \<open>
  Claim C5. Every bit set in a stored bitmask is the ordinal of a label (0, 1 or 2), after
  any sequence of registrations with names of the enumeration, deletions and
  re-registrations, so that \<open>get_info\<close> never fails while decoding an entry. The code
  breaks this with a repeated name: \<open>register('idempotent', 'idempotent')\<close> stores
  \<open>4 + 4 = 8\<close>, whose bit 3 is no label, and \<open>get_info\<close> then fails with \<open>ValueError\<close>.
\<close>

theorem register_breaks_invariant:
  "register [''idempotent'', ''idempotent''] f0 2 st0 = (Inr c1, registered_state 8)
   \<and> store (registered_state 8) (reg_cell c1) (fn c1) = Some 8
   \<and> bit (8::int) 3
   \<and> LabelEnum_call 3 = Inl (ValueError (Num 3))
   \<and> Registry_get_info (reg_cell c1) (fn c1) (registered_state 8) = Inl (ValueError (Num 3))"
  by (simp add: register_example LabelEnum_getitem_def registered_state_def c1_def
      Registry_get_info_def make_inner_def get_info_loop.simps LabelEnum_call_def
      drop_bit_eq_div bit_iff_odd_drop_bit)

section \<open>Decorating the same callable twice\<close>

lemma reg_callable_emitted_fresh:
  assumes "make_inner i f \<notin> dom (entries st)"
  shows "emitted (snd (reg_callable names f i st)) = emitted st"
proof -
  obtain self st1 where n: "Registry_new Registry [] [] st = (Inr self, st1)"
    and s: "store st1 self = entries st" and w: "emitted st1 = emitted st"
    using Registry_new_noargs by blast
  have absent: "store st1 self (make_inner i f) = None"
    using assms(1) s by (auto simp: dom_def)
  show ?thesis
    using n w absent
    by (simp add: reg_callable_def Registry_contains_def Registry_getitem_def
        Registry_setitem_def Let_def split: sum.splits)
qed

lemma register_once_example:
  "register [''pure''] f0 10 st0 =
     (Inr \<lparr>fn = make_inner 10 f0, reg_cell = 1, wrapped = f0\<rparr>, once_state)"
  by (simp add: register_def reg_callable_def Registry_new_def object_new_def fresh_instance_def
      st0_def once_state_def Registry_contains_def Registry_getitem_def Registry_setitem_def
      LabelEnum_getitem_def Let_def)

lemma register_twice_example:
  "register [''deprecated''] f0 12 once_state =
     (Inr \<lparr>fn = make_inner 12 f0, reg_cell = 1, wrapped = f0\<rparr>, two_state)"
  by (simp add: register_def reg_callable_def Registry_new_def once_state_def two_state_def
      Registry_contains_def Registry_getitem_def Registry_setitem_def make_inner_def
      LabelEnum_getitem_def Let_def fun_upd_twist)


section \<open>Single lookup\<close>

lemma warned_cases:
  "warned 0 = []" "warned 1 = [deprecated]" "warned 2 = [pure]" "warned 3 = [deprecated, pure]"
  "warned 4 = [idempotent]" "warned 5 = [deprecated, idempotent]" "warned 6 = [pure, idempotent]"
  "warned 7 = [deprecated, pure, idempotent]"
  by (simp_all add: warned_def bit_iff_odd_drop_bit drop_bit_eq_div)

lemma get_info_loop_valid:
  assumes "0 \<le> n" and "n < 8"
  shows "get_info_loop n 0 [] = Inr (map label_name (warned n))"
proof -
  from assms have "n = 0 \<or> n = 1 \<or> n = 2 \<or> n = 3 \<or> n = 4 \<or> n = 5 \<or> n = 6 \<or> n = 7"
    by arith
  then show ?thesis
    by (elim disjE) (simp_all add: get_info_loop_small warned_cases)
qed

lemma get_info_loop_error:
  "get_info_loop n c ls = Inl e \<Longrightarrow> \<exists>k. e = ValueError (Num k)"
proof (induction n c ls rule: get_info_loop.induct)
  case (1 n c labels)
  from "1.prems" show ?case
    apply (subst (asm) get_info_loop.simps)
    apply (auto simp: LabelEnum_call_def split: if_splits sum.splits dest: "1.IH")
    done
qed

lemma Registry_get_info_absent:
  assumes "callable clb" and "hashable clb" and "store st self clb = None"
  shows "\<exists>msg. Registry_get_info self clb st = Inl (KeyError (Str msg))"
  using assms by (simp add: Registry_get_info_def split: option.splits)

lemma Registry_get_info_present:
  assumes "callable clb" and "hashable clb" and "store st self clb = Some n"
  shows "Registry_get_info self clb st = get_info_loop n 0 []"
  using assms by (simp add: Registry_get_info_def)

lemma Registry_get_info_unhashable:
  assumes "callable clb" and "\<not> hashable clb"
  shows "Registry_get_info self clb st = Inl (TypeError (Str ''unhashable type''))"
  using assms by (simp add: Registry_get_info_def)

lemma getinfo_state:
  "entries (snd (getinfo clb val st)) = entries st \<and> emitted (snd (getinfo clb val st)) = emitted st"
proof -
  obtain self st1 where n: "Registry_new Registry [] [] st = (Inr self, st1)"
    and e: "entries st1 = entries st" and w: "emitted st1 = emitted st"
    using Registry_new_noargs by blast
  show ?thesis
    using n e w by (simp add: getinfo_def split: sum.splits error.splits option.splits)
qed

lemma getinfo_unregistered:
  assumes "callable clb" and "hashable clb" and "clb \<notin> dom (entries st)"
  shows "\<exists>msg. fst (getinfo clb val st) =
           (case val of None \<Rightarrow> Inl (KeyError (Str msg)) | Some d \<Rightarrow> Inr (Default d))"
proof -
  obtain self st1 where n: "Registry_new Registry [] [] st = (Inr self, st1)"
    and s: "store st1 self = entries st"
    using Registry_new_noargs by blast
  from assms(3) s have "store st1 self clb = None"
    by (auto simp: dom_def)
  from Registry_get_info_absent [OF assms(1,2) this] obtain msg
    where "Registry_get_info self clb st1 = Inl (KeyError (Str msg))"
    by blast
  with n have "fst (getinfo clb val st) =
           (case val of None \<Rightarrow> Inl (KeyError (Str msg)) | Some d \<Rightarrow> Inr (Default d))"
    by (simp add: getinfo_def split: option.splits)
  then show ?thesis ..
qed

lemma getinfo_registered:
  assumes "callable clb" and "hashable clb" and "entries st clb = Some n"
  shows "fst (getinfo clb val st) =
           (case get_info_loop n 0 [] of Inl e \<Rightarrow> Inl e | Inr ls \<Rightarrow> Inr (Labels ls))"
proof -
  obtain self st1 where n: "Registry_new Registry [] [] st = (Inr self, st1)"
    and s: "store st1 self = entries st"
    using Registry_new_noargs by blast
  from assms(3) s have "store st1 self clb = Some n"
    by simp
  from Registry_get_info_present [OF assms(1,2) this]
  have g: "Registry_get_info self clb st1 = get_info_loop n 0 []" .
  show ?thesis
  proof (cases "get_info_loop n 0 []")
    case (Inl e)
    from get_info_loop_error [OF this] obtain k where "e = ValueError (Num k)"
      by blast
    with n g Inl show ?thesis
      by (simp add: getinfo_def)
  next
    case (Inr ls)
    with n g show ?thesis
      by (simp add: getinfo_def)
  qed
qed

lemma getinfo_unhashable:
  assumes "callable clb" and "\<not> hashable clb"
  shows "fst (getinfo clb val st) = Inl (TypeError (Str ''unhashable type''))"
proof -
  obtain self st1 where n: "Registry_new Registry [] [] st = (Inr self, st1)"
    using Registry_new_noargs by blast
  with Registry_get_info_unhashable [OF assms, of self st1] show ?thesis
    by (simp add: getinfo_def)
qed

text \<open>
  Claim C7, as amended. Let \<open>clb\<close> be a hashable callable. If it has no entry,
  \<open>getinfo(clb)\<close> with no default (\<open>val\<close> is \<open>None\<close>) raises the \<open>KeyError\<close> of \<open>get_info\<close>, and
  \<open>getinfo(clb, d)\<close> returns \<open>d\<close> unchanged for every default \<open>d\<close>. If it is registered, the
  result does not depend on the default, and when the stored bitmask has label bits only
  (\<open>0 \<le> n < 8\<close>) it is the list of the labels. For a callable that is not hashable
  \<open>getinfo\<close> raises \<open>TypeError\<close> whatever the default. The registry and the warnings stay
  as they are.
\<close>

theorem getinfo_default:
  "(callable clb \<and> hashable clb \<and> clb \<notin> dom (entries st) \<longrightarrow>
      (\<exists>msg. fst (getinfo clb (None :: 'd option) st) = Inl (KeyError (Str msg)))
      \<and> (\<forall>d :: 'd. fst (getinfo clb (Some d) st) = Inr (Default d)))
   \<and> (callable clb \<and> hashable clb \<and> entries st clb = Some n \<longrightarrow>
        fst (getinfo clb val st) = fst (getinfo clb (None :: 'd option) st)
        \<and> (0 \<le> n \<and> n < 8 \<longrightarrow>
              fst (getinfo clb val st) = Inr (Labels (map label_name (warned n)))))
   \<and> (callable clb \<and> \<not> hashable clb \<longrightarrow>
        fst (getinfo clb val st) = Inl (TypeError (Str ''unhashable type'')))
   \<and> entries (snd (getinfo clb val st)) = entries st
   \<and> emitted (snd (getinfo clb val st)) = emitted st"
proof (intro conjI impI allI)
  assume a: "callable clb \<and> hashable clb \<and> clb \<notin> dom (entries st)"
  then have c: "callable clb" and h: "hashable clb" and u: "clb \<notin> dom (entries st)"
    by simp_all
  from getinfo_unregistered [OF c h u, of "None :: 'd option"]
  show "\<exists>msg. fst (getinfo clb (None :: 'd option) st) = Inl (KeyError (Str msg))"
    by simp
  fix d :: 'd
  from getinfo_unregistered [OF c h u, of "Some d"]
  show "fst (getinfo clb (Some d) st) = Inr (Default d)"
    by simp
next
  assume a: "callable clb \<and> hashable clb \<and> entries st clb = Some n"
  then have c: "callable clb" and h: "hashable clb" and r: "entries st clb = Some n"
    by simp_all
  from getinfo_registered [OF c h r, of val] getinfo_registered [OF c h r, of "None :: 'd option"]
  show "fst (getinfo clb val st) = fst (getinfo clb (None :: 'd option) st)"
    by simp
  assume "0 \<le> n \<and> n < 8"
  then have "get_info_loop n 0 [] = Inr (map label_name (warned n))"
    by (simp add: get_info_loop_valid)
  with getinfo_registered [OF c h r, of val]
  show "fst (getinfo clb val st) = Inr (Labels (map label_name (warned n)))"
    by simp
next
  assume "callable clb \<and> \<not> hashable clb"
  then show "fst (getinfo clb val st) = Inl (TypeError (Str ''unhashable type''))"
    by (simp add: getinfo_unhashable)
next
  show "entries (snd (getinfo clb val st)) = entries st"
    by (simp add: getinfo_state)
  show "emitted (snd (getinfo clb val st)) = emitted st"
    by (simp add: getinfo_state)
qed

theorem getinfo_default_witness:
  "callable f0 \<and> hashable f0 \<and> f0 \<notin> dom (entries st0)
   \<and> fst (getinfo f0 (None :: nat option) st0) = Inl (KeyError (Str ''Callable (f) not in Registry.''))
   \<and> fst (getinfo f0 (Some (7::nat)) st0) = Inr (Default 7)
   \<and> callable (make_inner 2 f0) \<and> hashable (make_inner 2 f0)
   \<and> entries (registered_state 3) (make_inner 2 f0) = Some 3
   \<and> fst (getinfo (make_inner 2 f0) (Some (7::nat)) (registered_state 3)) =
       Inr (Labels [''deprecated'', ''pure''])
   \<and> callable u0 \<and> \<not> hashable u0
   \<and> fst (getinfo u0 (None :: nat option) st0) = Inl (TypeError (Str ''unhashable type''))"
proof -
  have a: "callable f0 \<and> hashable f0 \<and> f0 \<notin> dom (entries st0)"
    by (simp add: f0_def entries_def st0_def)
  have b: "callable (make_inner 2 f0) \<and> hashable (make_inner 2 f0)
      \<and> entries (registered_state 3) (make_inner 2 f0) = Some 3"
    by (simp add: entries_def registered_state_def)
  have c: "callable u0 \<and> \<not> hashable u0"
    by (simp add: u0_def)
  have k: "fst (getinfo f0 (None :: nat option) st0) = Inl (KeyError (Str ''Callable (f) not in Registry.''))"
    by (simp add: getinfo_def Registry_new_def object_new_def st0_def f0_def Registry_get_info_def)
  from getinfo_default [of f0 st0 3 "Some (7::nat)"] a
  have u: "fst (getinfo f0 (Some (7::nat)) st0) = Inr (Default 7)"
    by blast
  from getinfo_default [of "make_inner 2 f0" "registered_state 3" 3 "Some (7::nat)"] b
  have "(0::int) \<le> 3 \<and> (3::int) < 8 \<longrightarrow>
      fst (getinfo (make_inner 2 f0) (Some (7::nat)) (registered_state 3)) =
       Inr (Labels (map label_name (warned 3)))"
    by blast
  then have r: "fst (getinfo (make_inner 2 f0) (Some (7::nat)) (registered_state 3)) =
       Inr (Labels [''deprecated'', ''pure''])"
    by (simp add: warned_small)
  from getinfo_default [of u0 st0 3 "None :: nat option"] c
  have t: "fst (getinfo u0 (None :: nat option) st0) = Inl (TypeError (Str ''unhashable type''))"
    by blast
  from a b c k u r t show ?thesis by blast
qed

text \<open>
  Claim C7 as stated fails for a callable that cannot be hashed: it has no entry, yet
  \<open>getinfo\<close> with a default raises the \<open>TypeError\<close> of the dictionary lookup, which
  \<open>except KeyError\<close> does not catch. And for the entry that
  \<open>register('idempotent', 'idempotent')\<close> leaves (bitmask 8, see C5) \<open>getinfo\<close> raises
  \<open>ValueError\<close> instead of returning labels.
\<close>

theorem getinfo_unhashable_callable:
  "callable u0 \<and> u0 \<notin> dom (entries st0)
   \<and> fst (getinfo u0 (Some (7::nat)) st0) = Inl (TypeError (Str ''unhashable type''))
   \<and> entries (registered_state 8) (make_inner 2 f0) = Some 8
   \<and> fst (getinfo (make_inner 2 f0) (Some (7::nat)) (registered_state 8)) =
       Inl (ValueError (Num 3))"
proof -
  have a: "callable u0 \<and> u0 \<notin> dom (entries st0)"
    by (simp add: u0_def entries_def st0_def)
  have b: "fst (getinfo u0 (Some (7::nat)) st0) = Inl (TypeError (Str ''unhashable type''))"
    by (simp add: getinfo_unhashable u0_def)
  have c: "entries (registered_state 8) (make_inner 2 f0) = Some 8"
    by (simp add: entries_def registered_state_def)
  have "get_info_loop 8 0 [] = Inl (ValueError (Num 3))"
    by (simp add: get_info_loop.simps LabelEnum_call_def drop_bit_eq_div)
  with getinfo_registered [OF _ _ c, of "Some (7::nat)"]
  have d: "fst (getinfo (make_inner 2 f0) (Some (7::nat)) (registered_state 8)) =
       Inl (ValueError (Num 3))"
    by simp
  from a b c d show ?thesis by blast
qed

section \<open>Bulk lookups\<close>

lemma getinfoiter_loop_eq:
  assumes "\<forall>x n. store st reg x = Some n \<longrightarrow> 0 \<le> n \<and> n < 8"
    and "\<forall>x\<in>set items. callable x \<longrightarrow> hashable x"
  shows "getinfoiter_loop reg items info st =
     Inr (\<lambda>x. if x \<in> set items \<and> callable x \<and> store st reg x \<noteq> None
               then map_option decode (store st reg x) else info x)"
  using assms(2)
proof (induction items arbitrary: info)
  case Nil
  then show ?case by simp
next
  case (Cons item items)
  then have hrest: "\<forall>x\<in>set items. callable x \<longrightarrow> hashable x"
    and hitem: "callable item \<longrightarrow> hashable item"
    by simp_all
  note IH = Cons.IH [OF hrest]
  let ?res = "\<lambda>its inf. (\<lambda>x. if x \<in> set its \<and> callable x \<and> store st reg x \<noteq> None
               then map_option decode (store st reg x) else inf x)"
  show ?case
  proof (cases "callable item \<and> store st reg item \<noteq> None")
    case False
    have skip: "getinfoiter_loop reg (item # items) info st = getinfoiter_loop reg items info st"
    proof (cases "callable item")
      case True
      with False have "store st reg item = None"
        by simp
      from True hitem have "hashable item"
        by simp
      from Registry_get_info_absent [OF True this \<open>store st reg item = None\<close>] obtain msg
        where "Registry_get_info reg item st = Inl (KeyError (Str msg))"
        by blast
      with True show ?thesis by simp
    next
      case False
      then show ?thesis by simp
    qed
    have "?res (item # items) info = ?res items info"
      using False by (auto simp: fun_eq_iff)
    with skip IH [of info] show ?thesis
      by simp
  next
    case True
    then obtain n where c: "callable item" and n: "store st reg item = Some n"
      by auto
    with assms have "0 \<le> n" "n < 8"
      by auto
    then have "get_info_loop n 0 [] = Inr (decode n)"
      by (simp add: get_info_loop_valid decode_def)
    from c hitem have h: "hashable item"
      by simp
    from \<open>get_info_loop n 0 [] = Inr (decode n)\<close> Registry_get_info_present [OF c h n]
    have "Registry_get_info reg item st = Inr (decode n)"
      by simp
    with c have step: "getinfoiter_loop reg (item # items) info st =
        getinfoiter_loop reg items (info(item \<mapsto> decode n)) st"
      by simp
    have "?res (item # items) info = ?res items (info(item \<mapsto> decode n))"
      using c n by (auto simp: fun_eq_iff)
    with step IH [of "info(item \<mapsto> decode n)"] show ?thesis
      by simp
  qed
qed

lemma getinfovars_loop_eq:
  assumes "\<forall>x n. store st reg x = Some n \<longrightarrow> 0 \<le> n \<and> n < 8"
    and "\<forall>x\<in>set items. callable x \<and> store st reg x \<noteq> None \<longrightarrow> obj_name x \<noteq> None"
    and "\<forall>x\<in>set items. callable x \<longrightarrow> hashable x"
  shows "getinfovars_loop reg items info st =
     Inr (info ++ map_of (rev (concat (map (named_entry (store st reg)) items))))"
  using assms(2,3)
proof (induction items arbitrary: info)
  case Nil
  then show ?case by simp
next
  case (Cons item items)
  then have rest: "\<forall>x\<in>set items. callable x \<and> store st reg x \<noteq> None \<longrightarrow> obj_name x \<noteq> None"
    and hrest: "\<forall>x\<in>set items. callable x \<longrightarrow> hashable x"
    and hitem: "callable item \<longrightarrow> hashable item"
    by simp_all
  note IH = Cons.IH [OF rest hrest]
  let ?tl = "map_of (rev (concat (map (named_entry (store st reg)) items)))"
  show ?case
  proof (cases "callable item \<and> store st reg item \<noteq> None")
    case False
    have skip: "getinfovars_loop reg (item # items) info st = getinfovars_loop reg items info st"
    proof (cases "callable item")
      case True
      with False have "store st reg item = None"
        by simp
      from True hitem have "hashable item"
        by simp
      from Registry_get_info_absent [OF True this \<open>store st reg item = None\<close>] obtain msg
        where "Registry_get_info reg item st = Inl (KeyError (Str msg))"
        by blast
      with True show ?thesis by simp
    next
      case False
      then show ?thesis by simp
    qed
    have "named_entry (store st reg) item = []"
      using False by (auto simp: named_entry_def)
    with skip IH [of info] show ?thesis
      by simp
  next
    case True
    then obtain n where c: "callable item" and n: "store st reg item = Some n"
      by auto
    with assms(1) have "0 \<le> n" "n < 8"
      by auto
    then have "get_info_loop n 0 [] = Inr (decode n)"
      by (simp add: get_info_loop_valid decode_def)
    from c hitem have h: "hashable item"
      by simp
    from \<open>get_info_loop n 0 [] = Inr (decode n)\<close> Registry_get_info_present [OF c h n]
    have g: "Registry_get_info reg item st = Inr (decode n)"
      by simp
    from Cons.prems c n obtain nm where nm: "obj_name item = Some nm"
      by auto
    from c g nm have step: "getinfovars_loop reg (item # items) info st =
        getinfovars_loop reg items (info(nm \<mapsto> decode n)) st"
      by (simp add: getattr_name_def)
    have e: "named_entry (store st reg) item = [(nm, decode n)]"
      using c n nm by (simp add: named_entry_def)
    have "info ++ map_of (rev (concat (map (named_entry (store st reg)) (item # items))))
        = info ++ ([nm \<mapsto> decode n] ++ ?tl)"
      by (simp add: e)
    also have "\<dots> = info(nm \<mapsto> decode n) ++ ?tl"
      by (simp add: fun_eq_iff map_add_def split: option.splits)
    finally have eq: "info ++ map_of (rev (concat (map (named_entry (store st reg)) (item # items))))
        = info(nm \<mapsto> decode n) ++ ?tl" .
    have "getinfovars_loop reg (item # items) info st = Inr (info(nm \<mapsto> decode n) ++ ?tl)"
      using step IH [of "info(nm \<mapsto> decode n)"] by (rule trans)
    then show ?thesis
      by (simp only: eq)
  qed
qed

lemma bulk_state:
  "\<exists>self st1. Registry_new Registry [] [] st = (Inr self, st1) \<and> store st1 self = entries st
      \<and> entries st1 = entries st \<and> emitted st1 = emitted st"
  using Registry_new_noargs [of st] by blast

lemma getinfoiter_eq:
  assumes "\<forall>x n. entries st x = Some n \<longrightarrow> 0 \<le> n \<and> n < 8"
    and "\<forall>x\<in>set items. callable x \<longrightarrow> hashable x"
  shows "fst (getinfoiter items st) =
           Inr (\<lambda>x. if x \<in> set items \<and> callable x then map_option decode (entries st x) else None)"
proof -
  obtain self st1 where n: "Registry_new Registry [] [] st = (Inr self, st1)"
    and s: "store st1 self = entries st"
    using bulk_state by blast
  from assms(1) s have v: "\<forall>x n. store st1 self x = Some n \<longrightarrow> 0 \<le> n \<and> n < 8"
    by simp
  have "(\<lambda>x. if x \<in> set items \<and> callable x \<and> store st1 self x \<noteq> None
               then map_option decode (store st1 self x) else Map.empty x)
      = (\<lambda>x. if x \<in> set items \<and> callable x then map_option decode (entries st x) else None)"
    by (auto simp: fun_eq_iff s)
  with getinfoiter_loop_eq [OF v assms(2), of Map.empty] n show ?thesis
    by (simp add: getinfoiter_def)
qed

lemma getinfovars_eq:
  assumes "\<forall>x n. entries st x = Some n \<longrightarrow> 0 \<le> n \<and> n < 8"
    and "\<forall>x\<in>snd ` set vs. callable x \<and> x \<in> dom (entries st) \<longrightarrow> obj_name x \<noteq> None"
    and "\<forall>x\<in>snd ` set vs. callable x \<longrightarrow> hashable x"
  shows "fst (getinfovars vs st) =
           Inr (map_of (rev (concat (map (named_entry (entries st)) (map snd vs)))))"
proof -
  obtain self st1 where n: "Registry_new Registry [] [] st = (Inr self, st1)"
    and s: "store st1 self = entries st"
    using bulk_state by blast
  from assms(1) s have v: "\<forall>x n. store st1 self x = Some n \<longrightarrow> 0 \<le> n \<and> n < 8"
    by simp
  from assms(2) s
  have nm: "\<forall>x\<in>set (map snd vs). callable x \<and> store st1 self x \<noteq> None \<longrightarrow> obj_name x \<noteq> None"
    by (auto simp: dom_def)
  from assms(3) have h: "\<forall>x\<in>set (map snd vs). callable x \<longrightarrow> hashable x"
    by simp
  from getinfovars_loop_eq [OF v nm h, of Map.empty] n s show ?thesis
    by (simp add: getinfovars_def)
qed

lemma bulk_unchanged:
  "entries (snd (getinfoiter items st)) = entries st \<and> emitted (snd (getinfoiter items st)) = emitted st
   \<and> entries (snd (getinfovars vs st)) = entries st \<and> emitted (snd (getinfovars vs st)) = emitted st"
proof -
  obtain self st1 where n: "Registry_new Registry [] [] st = (Inr self, st1)"
    and e: "entries st1 = entries st" and w: "emitted st1 = emitted st"
    using bulk_state by blast
  then show ?thesis
    by (simp add: getinfoiter_def getinfovars_def)
qed

lemma named_entry_single:
  "(nm, ls) \<in> set (named_entry m x) \<longleftrightarrow>
     callable x \<and> (\<exists>n. m x = Some n \<and> obj_name x = Some nm \<and> ls = decode n)"
  by (cases "callable x"; cases "m x"; cases "obj_name x"; auto simp: named_entry_def)

lemma named_entry_set:
  "(nm, ls) \<in> set (concat (map (named_entry m) items)) \<longleftrightarrow>
     (\<exists>x\<in>set items. \<exists>n. callable x \<and> m x = Some n \<and> obj_name x = Some nm \<and> ls = decode n)"
  by (simp add: named_entry_single)

lemma named_lookup:
  assumes inj: "inj_on obj_name {x \<in> set items. callable x \<and> x \<in> dom m}"
    and x: "x \<in> set items" "callable x" "m x = Some n" "obj_name x = Some nm"
  shows "map_of (rev (concat (map (named_entry m) items))) nm = Some (decode n)"
proof -
  let ?xs = "concat (map (named_entry m) items)"
  from x have mem: "(nm, decode n) \<in> set ?xs"
    unfolding named_entry_set by blast
  then have "nm \<in> fst ` set (rev ?xs)"
    by force
  then obtain ls where ls: "map_of (rev ?xs) nm = Some ls"
    by (meson map_of_eq_None_iff not_Some_eq)
  then have "(nm, ls) \<in> set ?xs"
    by (auto dest: map_of_SomeD)
  then obtain y k where y: "y \<in> set items" "callable y" "m y = Some k" "obj_name y = Some nm"
    and k: "ls = decode k"
    unfolding named_entry_set by blast
  from inj x y have "y = x"
    by (auto simp: inj_on_def dom_def)
  with y x k have "ls = decode n"
    by simp
  with ls show ?thesis
    by simp
qed

text \<open>
  Claim C8, as amended. Let the stored bitmasks of the registry have label bits only, let
  every callable among the items scanned be hashable, and let every registered callable
  that the mapping variants scan have a \<open>__name__\<close>. Then the bulk lookups do not raise:
  they skip every item that is not callable and every callable without an entry, and
  leave the entries and the warnings as they are. \<open>getinfoiter\<close> returns exactly one entry
  per registered callable of the iterable, keyed by the callable and holding its labels.
  \<open>getinfovars\<close> and \<open>getinfomodule\<close> return one entry per display name: the entries are
  written in scan order under \<open>item.__name__\<close>, so a later callable of the same name
  replaces an earlier one; when the display names of the registered callables are
  distinct, every registered callable has its labels under its name.
\<close>

theorem bulk_lookups:
  assumes "\<forall>x n. entries st x = Some n \<longrightarrow> 0 \<le> n \<and> n < 8"
    and "\<forall>x\<in>set items. callable x \<longrightarrow> hashable x"
    and "\<forall>x\<in>snd ` set vs. callable x \<longrightarrow> hashable x"
    and "\<forall>x\<in>snd ` set vs. callable x \<and> x \<in> dom (entries st) \<longrightarrow> obj_name x \<noteq> None"
  shows "fst (getinfoiter items st) =
           Inr (\<lambda>x. if x \<in> set items \<and> callable x then map_option decode (entries st x) else None)
     \<and> fst (getinfovars vs st) =
           Inr (map_of (rev (concat (map (named_entry (entries st)) (map snd vs)))))
     \<and> getinfomodule (Module vs) st = getinfovars vs st
     \<and> entries (snd (getinfoiter items st)) = entries st
     \<and> emitted (snd (getinfoiter items st)) = emitted st
     \<and> entries (snd (getinfovars vs st)) = entries st
     \<and> emitted (snd (getinfovars vs st)) = emitted st
     \<and> (inj_on obj_name {x \<in> snd ` set vs. callable x \<and> x \<in> dom (entries st)} \<longrightarrow>
          (\<forall>x\<in>snd ` set vs. \<forall>n. callable x \<and> entries st x = Some n \<longrightarrow>
             (\<exists>nm info. obj_name x = Some nm \<and> fst (getinfovars vs st) = Inr info
                \<and> info nm = Some (decode n))))"
proof -
  note 1 = getinfoiter_eq [OF assms(1,2)]
  note 2 = getinfovars_eq [OF assms(1,4,3)]
  have 3: "getinfomodule (Module vs) st = getinfovars vs st"
    by (simp add: getinfomodule_def)
  note 4 = bulk_unchanged [of items st vs]
  have 5: "inj_on obj_name {x \<in> snd ` set vs. callable x \<and> x \<in> dom (entries st)} \<longrightarrow>
          (\<forall>x\<in>snd ` set vs. \<forall>n. callable x \<and> entries st x = Some n \<longrightarrow>
             (\<exists>nm info. obj_name x = Some nm \<and> fst (getinfovars vs st) = Inr info
                \<and> info nm = Some (decode n)))"
  proof (intro impI ballI allI)
    fix x n
    assume inj: "inj_on obj_name {x \<in> snd ` set vs. callable x \<and> x \<in> dom (entries st)}"
      and x: "x \<in> snd ` set vs" and r: "callable x \<and> entries st x = Some n"
    with assms(4) obtain nm where nm: "obj_name x = Some nm"
      by (auto simp: dom_def)
    from inj have inj': "inj_on obj_name {x \<in> set (map snd vs). callable x \<and> x \<in> dom (entries st)}"
      by simp
    from x have x': "x \<in> set (map snd vs)"
      by simp
    from named_lookup [OF inj' x' _ _ nm, of n] r
    have "map_of (rev (concat (map (named_entry (entries st)) (map snd vs)))) nm = Some (decode n)"
      by simp
    with nm 2 show "\<exists>nm info. obj_name x = Some nm \<and> fst (getinfovars vs st) = Inr info
                \<and> info nm = Some (decode n)"
      by blast
  qed
  from 1 2 3 4 5 show ?thesis
    by blast
qed

lemma scan_state_entries:
  "entries scan_state = [make_inner 10 f0 \<mapsto> 2, make_inner 11 f1 \<mapsto> 5]"
  by (simp add: entries_def scan_state_def)

lemma decode_small:
  "decode 1 = [''deprecated'']" "decode 2 = [''pure'']" "decode 5 = [''deprecated'', ''idempotent'']"
  by (simp_all add: decode_def warned_cases)

theorem bulk_lookups_witness:
  "entries scan_state = [make_inner 10 f0 \<mapsto> 2, make_inner 11 f1 \<mapsto> 5]
   \<and> fst (getinfoiter [make_inner 10 f0, h0, o0, make_inner 11 f1] scan_state) =
        Inr [make_inner 10 f0 \<mapsto> [''pure''], make_inner 11 f1 \<mapsto> [''deprecated'', ''idempotent'']]
   \<and> fst (getinfovars [(''a'', make_inner 10 f0), (''b'', h0), (''c'', o0), (''d'', make_inner 11 f1)]
           scan_state) =
        Inr [''f'' \<mapsto> [''pure''], ''g'' \<mapsto> [''deprecated'', ''idempotent'']]"
proof -
  let ?vs = "[(''a'', make_inner 10 f0), (''b'', h0), (''c'', o0), (''d'', make_inner 11 f1)]"
  let ?items = "[make_inner 10 f0, h0, o0, make_inner 11 f1]"
  have v: "\<forall>x n. entries scan_state x = Some n \<longrightarrow> 0 \<le> n \<and> n < 8"
    by (auto simp: scan_state_entries split: if_splits)
  have nm: "\<forall>x\<in>snd ` set ?vs. callable x \<and> x \<in> dom (entries scan_state) \<longrightarrow> obj_name x \<noteq> None"
    by (simp add: make_inner_def h0_def o0_def)
  have h1: "\<forall>x\<in>set ?items. callable x \<longrightarrow> hashable x"
    by (simp add: h0_def o0_def)
  have h2: "\<forall>x\<in>snd ` set ?vs. callable x \<longrightarrow> hashable x"
    by (simp add: h0_def o0_def)
  note t = bulk_lookups [OF v h1 h2 nm]
  have a: "(\<lambda>x. if x \<in> set ?items \<and> callable x then map_option decode (entries scan_state x) else None)
      = [make_inner 10 f0 \<mapsto> [''pure''], make_inner 11 f1 \<mapsto> [''deprecated'', ''idempotent'']]"
    by (auto simp: fun_eq_iff scan_state_entries decode_small make_inner_def h0_def o0_def f0_def f1_def)
  have b: "map_of (rev (concat (map (named_entry (entries scan_state)) (map snd ?vs))))
      = [''f'' \<mapsto> [''pure''], ''g'' \<mapsto> [''deprecated'', ''idempotent'']]"
    by (auto simp: fun_eq_iff scan_state_entries decode_small named_entry_def make_inner_def h0_def
        o0_def f0_def f1_def)
  from t a b scan_state_entries show ?thesis
    by simp
qed

text \<open>
  Claim C8 as stated fails for the mapping variants: decorating \<open>f0\<close> twice gives two
  registered callables with the same \<open>__name__\<close>, and \<open>getinfovars\<close> over both returns a
  single entry, with the labels of the second; the labels of the first are lost. The
  lookups also raise where the claim has them omit or report an item: \<open>TypeError\<close> for a
  callable that cannot be hashed (it has no entry), \<open>AttributeError\<close> in \<open>getinfovars\<close> for a
  registered callable without \<open>__name__\<close>, and \<open>ValueError\<close> for the entry with bitmask 8
  of C5.
\<close>

theorem getinfovars_same_name:
  "snd (register [''deprecated''] f0 12 (snd (register [''pure''] f0 10 st0))) = two_state
   \<and> make_inner 10 f0 \<noteq> make_inner 12 f0
   \<and> Registry_get_info 1 (make_inner 10 f0) two_state = Inr [''pure'']
   \<and> Registry_get_info 1 (make_inner 12 f0) two_state = Inr [''deprecated'']
   \<and> fst (getinfovars [(''a'', make_inner 10 f0), (''b'', make_inner 12 f0)] two_state) =
       Inr [''f'' \<mapsto> [''deprecated'']]
   \<and> fst (getinfoiter [u0] st0) = Inl (TypeError (Str ''unhashable type''))
   \<and> fst (getinfovars [(''u'', u0)] st0) = Inl (TypeError (Str ''unhashable type''))
   \<and> Registry_setitem 1 p0 1 (snd (Registry_new Registry [] [] st0)) = (Inr (), nameless_state)
   \<and> fst (getinfovars [(''p'', p0)] nameless_state) = Inl (AttributeError (Str ''__name__''))
   \<and> fst (getinfoiter [make_inner 2 f0] (registered_state 8)) = Inl (ValueError (Num 3))"
proof -
  have r2: "snd (register [''deprecated''] f0 12 (snd (register [''pure''] f0 10 st0))) = two_state"
    by (simp add: register_once_example register_twice_example)
  have d: "make_inner 10 f0 \<noteq> make_inner 12 f0"
    by (simp add: make_inner_def)
  have g1: "Registry_get_info 1 (make_inner 10 f0) two_state = Inr [''pure'']"
    by (simp add: Registry_get_info_def two_state_def make_inner_def get_info_loop_small)
  have g2: "Registry_get_info 1 (make_inner 12 f0) two_state = Inr [''deprecated'']"
    by (simp add: Registry_get_info_def two_state_def make_inner_def get_info_loop_small)
  have v: "fst (getinfovars [(''a'', make_inner 10 f0), (''b'', make_inner 12 f0)] two_state) =
       Inr [''f'' \<mapsto> [''deprecated'']]"
    by (simp add: getinfovars_def Registry_new_def two_state_def Registry_get_info_def
        make_inner_def f0_def getattr_name_def get_info_loop_small)
  have u1: "fst (getinfoiter [u0] st0) = Inl (TypeError (Str ''unhashable type''))"
    by (simp add: getinfoiter_def Registry_new_def object_new_def st0_def u0_def
        Registry_get_info_def)
  have u2: "fst (getinfovars [(''u'', u0)] st0) = Inl (TypeError (Str ''unhashable type''))"
    by (simp add: getinfovars_def Registry_new_def object_new_def st0_def u0_def
        Registry_get_info_def)
  have p1: "Registry_setitem 1 p0 1 (snd (Registry_new Registry [] [] st0)) = (Inr (), nameless_state)"
    by (simp add: Registry_setitem_def Registry_new_def object_new_def fresh_instance_def st0_def
        p0_def nameless_state_def)
  have p2: "fst (getinfovars [(''p'', p0)] nameless_state) = Inl (AttributeError (Str ''__name__''))"
    by (simp add: getinfovars_def Registry_new_def nameless_state_def p0_def Registry_get_info_def
        getattr_name_def get_info_loop_small)
  have b: "fst (getinfoiter [make_inner 2 f0] (registered_state 8)) = Inl (ValueError (Num 3))"
    by (simp add: getinfoiter_def Registry_new_def registered_state_def Registry_get_info_def
        get_info_loop.simps LabelEnum_call_def drop_bit_eq_div)
  from r2 d g1 g2 v u1 u2 p1 p2 b show ?thesis
    by blast
qed

section \<open>Checking a signature\<close>

lemma attr_equal_simps:
  "attr_equal ''annotations'' gfas expected \<longleftrightarrow> annotations gfas = annotations expected"
  "attr_equal ''args'' gfas expected \<longleftrightarrow> args gfas = args expected"
  "attr_equal ''varargs'' gfas expected \<longleftrightarrow> varargs gfas = varargs expected"
  "attr_equal ''varkw'' gfas expected \<longleftrightarrow> varkw gfas = varkw expected"
  "attr_equal ''defaults'' gfas expected \<longleftrightarrow> defaults gfas = defaults expected"
  "attr_equal ''kwonlyargs'' gfas expected \<longleftrightarrow> kwonlyargs gfas = kwonlyargs expected"
  "attr_equal ''kwonlydefaults'' gfas expected \<longleftrightarrow> kwonlydefaults gfas = kwonlydefaults expected"
  by (simp_all add: attr_equal_def)

lemma check_attrs_all:
  "check_attrs [''annotations'', ''args'', ''varargs'', ''varkw'', ''defaults'',
                ''kwonlyargs'', ''kwonlydefaults''] gfas expected =
     (if annotations gfas = annotations expected \<and> args gfas = args expected
         \<and> varargs gfas = varargs expected \<and> varkw gfas = varkw expected
         \<and> defaults gfas = defaults expected \<and> kwonlyargs gfas = kwonlyargs expected
         \<and> kwonlydefaults gfas = kwonlydefaults expected
      then Inr () else Inl AssertionError)"
  by (simp add: attr_equal_simps)

lemma check_signature_eq:
  assumes "getfullargspec clb = Inr gfas" and "get_type_hints clb = Inr hints"
  shows "check_signature clb expected =
     (if annotations expected = hints
      then (if annotations gfas = annotations expected \<and> args gfas = args expected
               \<and> varargs gfas = varargs expected \<and> varkw gfas = varkw expected
               \<and> defaults gfas = defaults expected \<and> kwonlyargs gfas = kwonlyargs expected
               \<and> kwonlydefaults gfas = kwonlydefaults expected
            then Inr () else Inl AssertionError)
      else Inl AssertionError)"
  by (simp only: check_signature_def assms sum.case check_attrs_all)

lemma passes_iff:
  "r = (if P then (if Q then Inr () else Inl AssertionError) else Inl AssertionError) \<Longrightarrow>
     (r = Inr () \<longleftrightarrow> P \<and> Q) \<and> (r = Inr () \<or> r = Inl AssertionError)"
  by (cases P; cases Q; simp)

text \<open>
  Claim C9, as amended. For a callable whose introspection succeeds and whose raw
  annotations are its resolved type hints, \<open>check_signature\<close> passes if and only if every
  expected field (annotations, args, varargs, varkw, defaults, kwonlyargs, kwonlydefaults)
  equals the introspected value; otherwise it fails with a bare \<open>AssertionError\<close>, which
  carries no message and so does not name the field.
\<close>

theorem check_signature_iff:
  assumes "getfullargspec clb = Inr gfas" and "get_type_hints clb = Inr hints"
    and "annotations gfas = hints"
  shows "(check_signature clb expected = Inr () \<longleftrightarrow>
            annotations expected = hints \<and> args gfas = args expected
            \<and> varargs gfas = varargs expected \<and> varkw gfas = varkw expected
            \<and> defaults gfas = defaults expected \<and> kwonlyargs gfas = kwonlyargs expected
            \<and> kwonlydefaults gfas = kwonlydefaults expected)
       \<and> (check_signature clb expected = Inr () \<or> check_signature clb expected = Inl AssertionError)"
proof -
  have raw: "annotations expected = hints \<Longrightarrow> annotations gfas = annotations expected"
    using assms(3) by (simp only:)
  from passes_iff [OF check_signature_eq [OF assms(1,2), of expected]] raw
  show ?thesis
    by blast
qed

theorem check_signature_iff_witness:
  "check_signature clb_f spec_f = Inr ()
   \<and> check_signature clb_f (spec_f\<lparr>defaults := None\<rparr>) = Inl AssertionError"
proof -
  have a: "getfullargspec clb_f = Inr spec_f"
    by (simp add: clb_f_def)
  have b: "get_type_hints clb_f = Inr [''a'' \<mapsto> Resolved ''int'']"
    by (simp add: clb_f_def)
  have c: "annotations spec_f = [''a'' \<mapsto> Resolved ''int'']"
    by (simp add: spec_f_def)
  from check_signature_iff [OF a b c, of spec_f] c have 1: "check_signature clb_f spec_f = Inr ()"
    by simp
  have d: "defaults spec_f \<noteq> defaults (spec_f\<lparr>defaults := None\<rparr>)"
    by (simp add: spec_f_def)
  from check_signature_iff [OF a b c, of "spec_f\<lparr>defaults := None\<rparr>"] d
  have 2: "check_signature clb_f (spec_f\<lparr>defaults := None\<rparr>) = Inl AssertionError"
    by blast
  from 1 2 show ?thesis by simp
qed

text \<open>
  Claim C9 as stated fails: a mismatch on \<open>args\<close> alone and a mismatch on \<open>varkw\<close> alone
  give the same failure, an \<open>AssertionError\<close> without a message; and for the function
  defined under deferred annotations the expected fields that equal the resolved
  signature are rejected, because the loop also compares the unevaluated annotations.
\<close>

theorem check_signature_unnamed_failure:
  "check_signature clb_f (spec_f\<lparr>args := [''a'']\<rparr>) = Inl AssertionError
   \<and> check_signature clb_f (spec_f\<lparr>varkw := None\<rparr>) = Inl AssertionError
   \<and> get_type_hints clb_deferred = Inr (annotations spec_f)
   \<and> check_signature clb_deferred spec_f = Inl AssertionError"
proof -
  have a: "getfullargspec clb_f = Inr spec_f"
    by (simp add: clb_f_def)
  have b: "get_type_hints clb_f = Inr [''a'' \<mapsto> Resolved ''int'']"
    by (simp add: clb_f_def)
  have a': "getfullargspec clb_deferred = Inr (spec_f\<lparr>annotations := [''a'' \<mapsto> Text ''int'']\<rparr>)"
    by (simp add: clb_deferred_def)
  have b': "get_type_hints clb_deferred = Inr [''a'' \<mapsto> Resolved ''int'']"
    by (simp add: clb_deferred_def)
  have c: "annotations spec_f = [''a'' \<mapsto> Resolved ''int'']"
    by (simp add: spec_f_def)
  have d: "args spec_f \<noteq> [''a'']" "varkw spec_f \<noteq> None"
    by (simp_all add: spec_f_def)
  have e: "[''a'' \<mapsto> Text ''int''] \<noteq> [''a'' \<mapsto> Resolved ''int'']"
    by (simp add: fun_eq_iff)
  have 1: "check_signature clb_f (spec_f\<lparr>args := [''a'']\<rparr>) = Inl AssertionError"
    using passes_iff [OF check_signature_eq [OF a b, of "spec_f\<lparr>args := [''a'']\<rparr>"]] d
    by auto
  have 2: "check_signature clb_f (spec_f\<lparr>varkw := None\<rparr>) = Inl AssertionError"
    using passes_iff [OF check_signature_eq [OF a b, of "spec_f\<lparr>varkw := None\<rparr>"]] d
    by auto
  have 3: "check_signature clb_deferred spec_f = Inl AssertionError"
    using passes_iff [OF check_signature_eq [OF a' b', of spec_f]] c e
    by auto
  from 1 2 3 b' c show ?thesis
    by simp
qed

section \<open>Constructing the registry\<close>

lemma Registry_new_cached:
  assumes "Registry_new cls posargs kwargs st = (Inr self, st1)"
  shows "map_of (cache st1) cls = Some self"
  using assms
  by (auto simp: Registry_new_def update_conv' split: option.splits sum.splits)

lemma Registry_new_again:
  assumes "Registry_new cls posargs kwargs st = (Inr self, st1)"
  shows "Registry_new cls posargs' kwargs' st1 = (Inr self, st1)"
  using Registry_new_cached [OF assms] by (simp add: Registry_new_def)

lemma Registry_new_visible:
  assumes "Registry_new cls posargs kwargs st = (Inr self, st1)" and "hashable x"
  shows "\<exists>st2 st3. Registry_setitem self x v st1 = (Inr (), st2)
           \<and> Registry_new cls posargs' kwargs' st2 = (Inr self, st3)
           \<and> Registry_getitem self x st3 = Inr v"
  using Registry_new_cached [OF assms(1)] assms(2)
  by (simp add: Registry_new_def Registry_setitem_def Registry_getitem_def)

lemma fold_max_ge: "(a::nat) \<le> fold max xs a"
proof (induction xs arbitrary: a)
  case Nil
  then show ?case by simp
next
  case (Cons x xs)
  have "a \<le> max x a" by simp
  also have "\<dots> \<le> fold max xs (max x a)" by (rule Cons.IH)
  finally show ?case by simp
qed

lemma fold_max_mem: "x \<in> set xs \<Longrightarrow> (x::nat) \<le> fold max xs a"
proof (induction xs arbitrary: a)
  case Nil
  then show ?case by simp
next
  case (Cons y xs)
  show ?case
  proof (cases "x = y")
    case True
    have "x \<le> max y a" using True by simp
    also have "\<dots> \<le> fold max xs (max y a)" by (rule fold_max_ge)
    finally show ?thesis by simp
  next
    case False
    with Cons.prems have "x \<in> set xs" by simp
    from Cons.IH [OF this, of "max y a"] show ?thesis by simp
  qed
qed

lemma fresh_instance_new: "(cls, a) \<in> set (cache st) \<Longrightarrow> a < fresh_instance st"
proof -
  assume "(cls, a) \<in> set (cache st)"
  then have "a \<in> set (map snd (cache st))" by force
  from fold_max_mem [OF this, of 0] show ?thesis
    by (simp add: fresh_instance_def)
qed

lemma map_snd_update_new:
  "map_of al k = None \<Longrightarrow> map snd (AList.update k v al) = map snd al @ [v]"
proof (induction al)
  case Nil
  then show ?case by simp
next
  case (Cons p al)
  obtain a b where p: "p = (a, b)" by (cases p)
  with Cons.prems have "a \<noteq> k" and "map_of al k = None"
    by (auto split: if_splits)
  with Cons.IH p show ?case
    by simp
qed

lemma distinct_instances:
  assumes "distinct (map snd al)" and "map_of al k = Some a" and "map_of al k' = Some a"
  shows "k = k'"
proof -
  from assms(2,3) have m: "(k, a) \<in> set al" "(k', a) \<in> set al"
    by (auto dest: map_of_SomeD)
  from assms(1) have "inj_on snd (set al)"
    by (simp add: distinct_map)
  from inj_onD [OF this _ m] show ?thesis
    by simp
qed

lemma Registry_new_hit:
  "map_of (cache st) cls = Some self \<Longrightarrow> Registry_new cls posargs kwargs st = (Inr self, st)"
  by (simp add: Registry_new_def)

lemma Registry_new_miss:
  "map_of (cache st) cls = None \<Longrightarrow>
     Registry_new cls [] [] st =
       (Inr (fresh_instance st),
        st\<lparr>cache := AList.update cls (fresh_instance st) (cache st),
           store := (store st)(fresh_instance st := Map.empty)\<rparr>)"
  by (simp add: Registry_new_def object_new_def)

lemma Registry_new_fail:
  "map_of (cache st) cls = None \<Longrightarrow> posargs \<noteq> [] \<or> kwargs \<noteq> [] \<Longrightarrow>
     \<exists>e. Registry_new cls posargs kwargs st = (Inl e, st)"
  by (simp add: Registry_new_def object_new_def)

lemma Registry_new_cases:
  "Registry_new cls posargs kwargs st = (r, st1) \<Longrightarrow>
     st1 = st \<or>
     (map_of (cache st) cls = None \<and> r = Inr (fresh_instance st) \<and>
      st1 = st\<lparr>cache := AList.update cls (fresh_instance st) (cache st),
                store := (store st)(fresh_instance st := Map.empty)\<rparr>)"
proof (cases "map_of (cache st) cls")
  case (Some self)
  assume "Registry_new cls posargs kwargs st = (r, st1)"
  with Registry_new_hit [OF Some, of posargs kwargs] show ?thesis
    by simp
next
  case None
  assume a: "Registry_new cls posargs kwargs st = (r, st1)"
  show ?thesis
  proof (cases "posargs = [] \<and> kwargs = []")
    case True
    with a Registry_new_miss [OF None] None show ?thesis
      by simp
  next
    case False
    with Registry_new_fail [OF None, of posargs kwargs] a show ?thesis
      by auto
  qed
qed

lemma fresh_not_cached: "fresh_instance st \<notin> set (map snd (cache st))"
proof
  assume "fresh_instance st \<in> set (map snd (cache st))"
  then obtain c where "(c, fresh_instance st) \<in> set (cache st)"
    by auto
  from fresh_instance_new [OF this] show False
    by simp
qed

lemma Registry_new_distinct:
  assumes "instances_distinct st" and "Registry_new cls posargs kwargs st = (r, st1)"
  shows "instances_distinct st1"
proof -
  from Registry_new_cases [OF assms(2)] show ?thesis
  proof
    assume "st1 = st"
    with assms(1) show ?thesis by simp
  next
    assume a: "map_of (cache st) cls = None \<and> r = Inr (fresh_instance st) \<and>
      st1 = st\<lparr>cache := AList.update cls (fresh_instance st) (cache st),
                store := (store st)(fresh_instance st := Map.empty)\<rparr>"
    then have "map snd (cache st1) = map snd (cache st) @ [fresh_instance st]"
      by (simp add: map_snd_update_new)
    with assms(1) fresh_not_cached [of st] show ?thesis
      by (simp add: instances_distinct_def)
  qed
qed

lemma Registry_new_keeps:
  assumes "Registry_new cls' posargs kwargs st = (r, st1)" and "map_of (cache st) cls = Some self"
  shows "map_of (cache st1) cls = Some self \<and> store st1 self = store st self"
proof -
  from Registry_new_cases [OF assms(1)] show ?thesis
  proof
    assume "st1 = st"
    with assms(2) show ?thesis by simp
  next
    assume a: "map_of (cache st) cls' = None \<and> r = Inr (fresh_instance st) \<and>
      st1 = st\<lparr>cache := AList.update cls' (fresh_instance st) (cache st),
                store := (store st)(fresh_instance st := Map.empty)\<rparr>"
    with assms(2) have ne: "cls \<noteq> cls'"
      by auto
    from assms(2) have "(cls, self) \<in> set (cache st)"
      by (rule map_of_SomeD)
    from fresh_instance_new [OF this] have "self \<noteq> fresh_instance st"
      by simp
    with a ne assms(2) show ?thesis
      by (simp add: update_conv')
  qed
qed

lemma Registry_new_subclass:
  assumes "instances_distinct st" and "cls \<noteq> cls'"
    and "Registry_new cls posargs kwargs st = (Inr self, st1)"
    and "Registry_new cls' posargs' kwargs' st1 = (Inr self', st2)"
  shows "self \<noteq> self' \<and> store st2 self = store st1 self
       \<and> store (snd (Registry_setitem self' x v st2)) self = store st1 self"
proof -
  from Registry_new_distinct [OF assms(1,3)] have d1: "instances_distinct st1" .
  from Registry_new_distinct [OF d1 assms(4)] have d2: "instances_distinct st2" .
  from Registry_new_cached [OF assms(3)] have c1: "map_of (cache st1) cls = Some self" .
  from Registry_new_cached [OF assms(4)] have c2': "map_of (cache st2) cls' = Some self'" .
  from Registry_new_keeps [OF assms(4) c1]
  have c2: "map_of (cache st2) cls = Some self" and s: "store st2 self = store st1 self"
    by simp_all
  have ne: "self \<noteq> self'"
  proof
    assume "self = self'"
    with c2 c2' have "map_of (cache st2) cls = Some self" "map_of (cache st2) cls' = Some self"
      by simp_all
    with d2 have "cls = cls'"
      unfolding instances_distinct_def by (rule distinct_instances)
    with assms(2) show False by simp
  qed
  from ne s show ?thesis
    by (simp add: Registry_setitem_def)
qed

text \<open>
  Claim C3. Two construction calls of the same concrete registry type, even with
  different arguments, return the identical instance with the identical backing store, and
  a subclass gets an instance and a store of its own. The lemmas above give this once
  the instance of the type exists, and for a first construction without arguments. A
  first construction with arguments fails: \<open>__new__\<close> hands them to \<open>object.__new__\<close>,
  which raises \<open>TypeError\<close>; nothing is cached, so a second call with other arguments
  fails again.
\<close>

theorem Registry_new_with_arguments:
  "Registry_new Registry [Num 1] [] st0 =
     (Inl (TypeError (Str ''object.__new__() takes exactly one argument (the type to instantiate)'')), st0)
   \<and> Registry_new Registry [Num 2] [] st0 =
     (Inl (TypeError (Str ''object.__new__() takes exactly one argument (the type to instantiate)'')), st0)
   \<and> Registry_new (Subclass 0) [] [(''name'', Str ''x'')] st0 =
     (Inl (TypeError (Str ''object.__new__() takes exactly one argument (the type to instantiate)'')), st0)"
  by (simp add: Registry_new_def object_new_def st0_def)

end
